theory Spec2Isabelle
  imports Main
begin

unbundle bit_operations_syntax

section \<open>Python values the simulator relies on\<close>

text \<open>
  The simulator is written in Python: its integers are unbounded (\<^typ>\<open>int\<close>; Python's
  \<open>>>\<close>, \<open><<\<close>, \<open>&\<close>, \<open>|\<close> and \<open>//\<close> are \<^const>\<open>drop_bit\<close>, \<^const>\<open>push_bit\<close>,
  \<open>AND\<close>, \<open>OR\<close> and \<open>div\<close> on \<^typ>\<open>int\<close>, all of them in two's complement and rounding
  down), indexing a list out of range raises \<open>IndexError\<close>, reading a missing dictionary key
  raises \<open>KeyError\<close>, and \<open>int(s, base)\<close> raises \<open>ValueError\<close> on malformed text. Every
  raise is a value \<open>Inl e\<close> of the model.
\<close>

datatype pyerr = IndexError | KeyError | ValueError

definition bind_exn :: "pyerr + 'a \<Rightarrow> ('a \<Rightarrow> pyerr + 'b) \<Rightarrow> pyerr + 'b" where
  "bind_exn m f = (case m of Inl e \<Rightarrow> Inl e | Inr v \<Rightarrow> f v)"

text \<open>\<open>xs[i]\<close>: an index from \<open>-len(xs)\<close> to \<open>len(xs) - 1\<close>, negative ones counted from the end.\<close>

definition py_index :: "'a list \<Rightarrow> int \<Rightarrow> nat option" where
  "py_index xs i =
     (if 0 \<le> i \<and> i < int (length xs) then Some (nat i)
      else if i < 0 \<and> - int (length xs) \<le> i then Some (nat (i + int (length xs)))
      else None)"

definition py_getitem :: "'a list \<Rightarrow> int \<Rightarrow> pyerr + 'a" where
  "py_getitem xs i = (case py_index xs i of None \<Rightarrow> Inl IndexError | Some k \<Rightarrow> Inr (xs ! k))"

definition py_setitem :: "'a list \<Rightarrow> int \<Rightarrow> 'a \<Rightarrow> pyerr + 'a list" where
  "py_setitem xs i v =
     (case py_index xs i of None \<Rightarrow> Inl IndexError | Some k \<Rightarrow> Inr (xs[k := v]))"

text \<open>\<open>d.get(k, dflt)\<close> and \<open>d[k]\<close> on a dictionary.\<close>

definition dict_get :: "('k \<rightharpoonup> 'v) \<Rightarrow> 'k \<Rightarrow> 'v \<Rightarrow> 'v" where
  "dict_get d k dflt = (case d k of None \<Rightarrow> dflt | Some v \<Rightarrow> v)"

definition dict_item :: "('k \<rightharpoonup> 'v) \<Rightarrow> 'k \<Rightarrow> pyerr + 'v" where
  "dict_item d k = (case d k of None \<Rightarrow> Inl KeyError | Some v \<Rightarrow> Inr v)"

text \<open>A key of a dictionary whose key set is fixed by the code that built it.\<close>

definition field :: "'v option \<Rightarrow> pyerr + 'v" where
  "field x = (case x of None \<Rightarrow> Inl KeyError | Some v \<Rightarrow> Inr v)"

text \<open>\<open>f'{n:02x}'\<close>: lower-case hexadecimal, zero-padded to width 2, the sign counted in.\<close>

definition hex_digit :: "nat \<Rightarrow> char" where
  "hex_digit d = ''0123456789abcdef'' ! (d mod 16)"

fun hex_of_nat :: "nat \<Rightarrow> string" where
  "hex_of_nat n =
     (if n < 16 then [hex_digit n] else hex_of_nat (n div 16) @ [hex_digit (n mod 16)])"

definition fmt_02x :: "int \<Rightarrow> string" where
  "fmt_02x n =
     (let sgn = (if n < 0 then ''-'' else '''');
          body = hex_of_nat (nat \<bar>n\<bar>)
      in sgn @ replicate (2 - length sgn - length body) CHR ''0'' @ body)"

text \<open>
  A Python string is the list of its code points; \<open>lit\<close> writes one from its ASCII text.
  \<open>str.strip\<close> removes at both ends the characters for which \<open>str.isspace\<close> holds: the
  code points 9 to 13, 28 to 32, 0x85, 0xA0, 0x1680, 0x2000 to 0x200A, 0x2028, 0x2029,
  0x202F, 0x205F and 0x3000.
\<close>

definition lit :: "string \<Rightarrow> nat list" where
  "lit s = map of_char s"

definition is_space :: "nat \<Rightarrow> bool" where
  "is_space c \<longleftrightarrow>
     (9 \<le> c \<and> c \<le> 13) \<or> (28 \<le> c \<and> c \<le> 32) \<or> c = 0x85 \<or> c = 0xA0 \<or> c = 0x1680 \<or>
     (0x2000 \<le> c \<and> c \<le> 0x200A) \<or> c = 0x2028 \<or> c = 0x2029 \<or> c = 0x202F \<or>
     c = 0x205F \<or> c = 0x3000"

definition strip :: "nat list \<Rightarrow> nat list" where
  "strip s = rev (dropWhile is_space (rev (dropWhile is_space s)))"

definition startswith :: "nat list \<Rightarrow> nat list \<Rightarrow> bool" where
  "startswith s p = (take (length p) s = p)"

text \<open>
  \<open>int(s, base)\<close> for a string and the bases 2 and 16. A string that is not all ASCII is
  first rewritten: code points below 127 stay, white space becomes a blank, a decimal
  digit of another script becomes the ASCII digit of its value, and the text is cut after
  the first other character, which becomes a question mark. Which code points are decimal
  digits, and of which value, is a table of the interpreter's Unicode database: the
  parameter \<open>dec\<close>. Then blanks and the code points 9 to 13 around the literal are
  skipped; the literal is an optional sign, an optional base prefix (\<open>0x\<close>, \<open>0X\<close> for 16,
  \<open>0b\<close>, \<open>0B\<close> for 2) that one underscore may follow, and at least one digit below the
  base, single underscores allowed between digits only. Anything else raises
  \<open>ValueError\<close>. As a digit a character is worth 0 to 9 for the ASCII decimal digits, 10 to
  35 for the ASCII letters in either case, and 37 (no digit) otherwise.
\<close>

fun transform :: "(nat \<rightharpoonup> nat) \<Rightarrow> nat list \<Rightarrow> nat list" where
  "transform dec [] = []"
| "transform dec (c # cs) =
     (if c < 127 then c # transform dec cs
      else if is_space c then 32 # transform dec cs
      else case dec c of Some d \<Rightarrow> (48 + d) # transform dec cs | None \<Rightarrow> [63])"

definition to_ascii :: "(nat \<rightharpoonup> nat) \<Rightarrow> nat list \<Rightarrow> nat list" where
  "to_ascii dec s = (if list_all (\<lambda>c. c < 128) s then s else transform dec s)"

definition c_isspace :: "nat \<Rightarrow> bool" where
  "c_isspace c \<longleftrightarrow> (9 \<le> c \<and> c \<le> 13) \<or> c = 32"

definition digit_val :: "nat \<Rightarrow> nat" where
  "digit_val c =
     (if 48 \<le> c \<and> c \<le> 57 then c - 48
      else if 97 \<le> c \<and> c \<le> 122 then c - 87
      else if 65 \<le> c \<and> c \<le> 90 then c - 55
      else 37)"

fun scan_digits :: "nat \<Rightarrow> bool \<Rightarrow> nat list \<Rightarrow> (nat list \<times> nat list) option" where
  "scan_digits b after_us [] = (if after_us then None else Some ([], []))"
| "scan_digits b after_us (c # cs) =
     (if c = 95 then (if after_us then None else scan_digits b True cs)
      else if digit_val c < b then
        (case scan_digits b False cs of None \<Rightarrow> None | Some (ds, r) \<Rightarrow> Some (digit_val c # ds, r))
      else if after_us then None else Some ([], c # cs))"

definition py_int :: "(nat \<rightharpoonup> nat) \<Rightarrow> nat list \<Rightarrow> nat \<Rightarrow> pyerr + int" where
  "py_int dec s b =
     (let s0 = dropWhile c_isspace (to_ascii dec s);
          neg = startswith s0 (lit ''-'');
          s1 = (if startswith s0 (lit ''+'') \<or> startswith s0 (lit ''-'') then drop 1 s0 else s0);
          pre = (if b = 16 then startswith s1 (lit ''0x'') \<or> startswith s1 (lit ''0X'')
                 else if b = 2 then startswith s1 (lit ''0b'') \<or> startswith s1 (lit ''0B'')
                 else False);
          s2 = (if pre then (if startswith (drop 2 s1) (lit ''_'') then drop 3 s1 else drop 2 s1)
                else s1)
      in if startswith s2 (lit ''_'') then Inl ValueError
         else case scan_digits b False s2 of
           None \<Rightarrow> Inl ValueError
         | Some (ds, rest) \<Rightarrow>
             if ds = [] \<or> dropWhile c_isspace rest \<noteq> [] then Inl ValueError
             else Inr ((if neg then - 1 else 1) * int (foldl (\<lambda>a d. a * b + d) 0 ds)))"

section \<open>The word parser (mips_core.py, lines 25 to 36)\<close>

text \<open>
  The \<open>try\<close> block holds the three calls of \<open>int\<close>; \<open>except Exception\<close> turns every
  raise inside it into the result \<open>None\<close>.
\<close>

definition parse_word :: "(nat \<rightharpoonup> nat) \<Rightarrow> nat list \<Rightarrow> pyerr + int option" where
  "parse_word dec s0 =
     (let s = strip s0 in
      if s = [] then Inr None
      else
        case (if startswith s (lit ''0x'') \<or> startswith s (lit ''0X'') then py_int dec s 16
              else if list_all (\<lambda>c. c \<in> set (lit ''01'')) s \<and> length s = 32
                then py_int dec s 2
              else py_int dec s 16)
        of Inl e \<Rightarrow> Inr None
         | Inr v \<Rightarrow> Inr (Some v))"



text \<open>A table of decimal digits for examples: the full-width digits and no others.\<close>

definition fullwidth_digits :: "nat \<rightharpoonup> nat" where
  "fullwidth_digits c = (if 0xFF10 \<le> c \<and> c \<le> 0xFF19 then Some (c - 0xFF10) else None)"

section \<open>The decoder (mips_core.py, lines 4 to 63)\<close>

definition R_FUNCTS :: "int \<rightharpoonup> string" where
  "R_FUNCTS =
     [0x20 \<mapsto> ''add'', 0x22 \<mapsto> ''sub'', 0x24 \<mapsto> ''and'', 0x25 \<mapsto> ''or'', 0x2A \<mapsto> ''slt'']"

definition I_OPCODES :: "int \<rightharpoonup> string" where
  "I_OPCODES =
     [0x08 \<mapsto> ''addi'', 0x23 \<mapsto> ''lw'', 0x2b \<mapsto> ''sw'', 0x04 \<mapsto> ''beq'', 0x05 \<mapsto> ''bne'']"

definition J_OPCODES :: "int \<rightharpoonup> string" where
  "J_OPCODES = [0x02 \<mapsto> ''j'']"

definition DEFAULT_BASE_PC :: int where
  "DEFAULT_BASE_PC = 0x00400000"

text \<open>
  The dictionary \<open>decode\<close> returns. The keys \<open>type\<close>, \<open>opcode\<close> and \<open>mnemonic\<close> are set
  by each of its three \<open>return\<close>s; the other keys exist in some formats only, and reading
  an absent one raises \<open>KeyError\<close>.
\<close>

record decoded =
  d_type :: string
  d_opcode :: int
  d_mnemonic :: string
  d_rs :: "int option"
  d_rt :: "int option"
  d_rd :: "int option"
  d_shamt :: "int option"
  d_funct :: "int option"
  d_imm :: "int option"
  d_address :: "int option"

definition decode :: "int \<Rightarrow> pyerr + decoded" where
  "decode instr =
     (let opcode = drop_bit 26 instr AND 0x3F in
      if opcode = 0 then
        (let rs = drop_bit 21 instr AND 0x1F;
             rt = drop_bit 16 instr AND 0x1F;
             rd = drop_bit 11 instr AND 0x1F;
             shamt = drop_bit 6 instr AND 0x1F;
             funct = instr AND 0x3F;
             mnemonic = dict_get R_FUNCTS funct (''unknown_r(0x'' @ fmt_02x funct @ '')'')
         in Inr \<lparr>d_type = ''R'', d_opcode = opcode, d_mnemonic = mnemonic,
                 d_rs = Some rs, d_rt = Some rt, d_rd = Some rd, d_shamt = Some shamt,
                 d_funct = Some funct, d_imm = None, d_address = None\<rparr>)
      else if J_OPCODES opcode \<noteq> None then
        (let addr = instr AND 0x03FFFFFF in
         bind_exn (dict_item J_OPCODES opcode) (\<lambda>mnemonic.
           Inr \<lparr>d_type = ''J'', d_opcode = opcode, d_mnemonic = mnemonic,
                d_rs = None, d_rt = None, d_rd = None, d_shamt = None,
                d_funct = None, d_imm = None, d_address = Some addr\<rparr>))
      else
        (let rs = drop_bit 21 instr AND 0x1F;
             rt = drop_bit 16 instr AND 0x1F;
             imm0 = instr AND 0xFFFF;
             imm = (if imm0 AND 0x8000 \<noteq> 0 then imm0 - 0x10000 else imm0);
             mnemonic = dict_get I_OPCODES opcode (''unknown_i(0x'' @ fmt_02x opcode @ '')'')
         in Inr \<lparr>d_type = ''I'', d_opcode = opcode, d_mnemonic = mnemonic,
                 d_rs = Some rs, d_rt = Some rt, d_rd = None, d_shamt = None,
                 d_funct = None, d_imm = Some imm, d_address = None\<rparr>))"

section \<open>The machine (class SimpleMIPS, lines 74 to 166)\<close>

record mips =
  regs :: "int list"
  mem :: "int \<rightharpoonup> int"
  pc :: int
  base :: int
  instrs :: "int list"
  step_count :: int
  halted :: bool

definition SimpleMIPS :: "int list \<Rightarrow> int \<Rightarrow> mips" where
  "SimpleMIPS instr_words base_pc =
     \<lparr>regs = replicate 32 0, mem = Map.empty, pc = base_pc, base = base_pc,
      instrs = instr_words, step_count = 0, halted = False\<rparr>"

definition fetch_instr_at_pc :: "mips \<Rightarrow> int \<Rightarrow> int option" where
  "fetch_instr_at_pc s p =
     (let idx = (p - base s) div 4 in
      if idx < 0 \<or> idx \<ge> int (length (instrs s)) then None
      else Some (instrs s ! nat idx))"

text \<open>
  The dictionary \<open>step\<close> returns: every key is optional, \<open>status\<close> included (the \<open>action\<close>
  dictionary has none until the last lines of \<open>step\<close>).
\<close>

record mem_access =
  ma_type :: string
  ma_addr :: int
  ma_value :: int

record step_result =
  status :: "string option"
  r_pc :: "int option"
  r_instr :: "int option"
  r_decoded :: "decoded option"
  r_mem_access :: "mem_access option"
  r_step :: "int option"
  r_regs_snapshot :: "int list option"

definition no_keys :: step_result where
  "no_keys = \<lparr>status = None, r_pc = None, r_instr = None, r_decoded = None,
              r_mem_access = None, r_step = None, r_regs_snapshot = None\<rparr>"

text \<open>
  How the dispatch of \<open>step\<close> ends: \<open>Return\<close> is one of its early \<open>return\<close> statements,
  \<open>Next\<close> falls through to the lines after the dispatch (152 to 158).
\<close>

datatype flow = Return step_result mips | Next step_result mips

text \<open>\<open>self.regs[rd] = v\<close> and \<open>self.regs[rs]\<close>.\<close>

definition set_reg :: "mips \<Rightarrow> int \<Rightarrow> int \<Rightarrow> pyerr + mips" where
  "set_reg s i v = bind_exn (py_setitem (regs s) i v) (\<lambda>rg. Inr (s\<lparr>regs := rg\<rparr>))"

definition get_reg :: "mips \<Rightarrow> int \<Rightarrow> pyerr + int" where
  "get_reg s i = py_getitem (regs s) i"

text \<open>Lines 100 to 112: the register format.\<close>

definition exec_R :: "mips \<Rightarrow> decoded \<Rightarrow> step_result \<Rightarrow> pyerr + flow" where
  "exec_R s dec action =
     bind_exn (field (d_rs dec)) (\<lambda>rs.
     bind_exn (field (d_rt dec)) (\<lambda>rt.
     bind_exn (field (d_rd dec)) (\<lambda>rd.
     bind_exn
       (if d_mnemonic dec = ''add'' then
          bind_exn (get_reg s rs) (\<lambda>a. bind_exn (get_reg s rt) (\<lambda>b.
            set_reg s rd ((a + b) AND 0xFFFFFFFF)))
        else if d_mnemonic dec = ''sub'' then
          bind_exn (get_reg s rs) (\<lambda>a. bind_exn (get_reg s rt) (\<lambda>b.
            set_reg s rd ((a - b) AND 0xFFFFFFFF)))
        else if d_mnemonic dec = ''and'' then
          bind_exn (get_reg s rs) (\<lambda>a. bind_exn (get_reg s rt) (\<lambda>b.
            set_reg s rd (a AND b)))
        else if d_mnemonic dec = ''or'' then
          bind_exn (get_reg s rs) (\<lambda>a. bind_exn (get_reg s rt) (\<lambda>b.
            set_reg s rd (a OR b)))
        else if d_mnemonic dec = ''slt'' then
          bind_exn (get_reg s rs) (\<lambda>a. bind_exn (get_reg s rt) (\<lambda>b.
            set_reg s rd (if (a AND 0xFFFFFFFF) < (b AND 0xFFFFFFFF) then 1 else 0)))
        else Inr s)
       (\<lambda>s1. Inr (Next action (s1\<lparr>pc := pc s1 + 4\<rparr>))))))"

text \<open>Lines 113 to 140: the immediate format.\<close>

definition exec_I :: "mips \<Rightarrow> decoded \<Rightarrow> step_result \<Rightarrow> pyerr + flow" where
  "exec_I s dec action =
     bind_exn (field (d_rs dec)) (\<lambda>rs.
     bind_exn (field (d_rt dec)) (\<lambda>rt.
     bind_exn (field (d_imm dec)) (\<lambda>imm.
       if d_mnemonic dec = ''addi'' then
         bind_exn (get_reg s rs) (\<lambda>a.
         bind_exn (set_reg s rt ((a + imm) AND 0xFFFFFFFF)) (\<lambda>s1.
           Inr (Next action (s1\<lparr>pc := pc s1 + 4\<rparr>))))
       else if d_mnemonic dec = ''lw'' then
         bind_exn (get_reg s rs) (\<lambda>a.
           let addr = a + imm; word = dict_get (mem s) addr 0 in
           bind_exn (set_reg s rt word) (\<lambda>s1.
             Inr (Next
               (action\<lparr>r_mem_access :=
                  Some \<lparr>ma_type = ''read'', ma_addr = addr, ma_value = word\<rparr>\<rparr>)
               (s1\<lparr>pc := pc s1 + 4\<rparr>))))
       else if d_mnemonic dec = ''sw'' then
         bind_exn (get_reg s rs) (\<lambda>a.
           let addr = a + imm in
           bind_exn (get_reg s rt) (\<lambda>b.
             let s1 = s\<lparr>mem := (mem s)(addr \<mapsto> b AND 0xFFFFFFFF)\<rparr>;
                 s2 = s1\<lparr>pc := pc s1 + 4\<rparr> in
             bind_exn (dict_item (mem s2) addr) (\<lambda>v.
               Inr (Next
                 (action\<lparr>r_mem_access :=
                    Some \<lparr>ma_type = ''write'', ma_addr = addr, ma_value = v\<rparr>\<rparr>)
                 s2))))
       else if d_mnemonic dec = ''beq'' then
         bind_exn (get_reg s rs) (\<lambda>a. bind_exn (get_reg s rt) (\<lambda>b.
           if a = b then Inr (Next action (s\<lparr>pc := pc s + 4 + push_bit 2 imm\<rparr>))
           else Inr (Next action (s\<lparr>pc := pc s + 4\<rparr>))))
       else if d_mnemonic dec = ''bne'' then
         bind_exn (get_reg s rs) (\<lambda>a. bind_exn (get_reg s rt) (\<lambda>b.
           if a \<noteq> b then Inr (Next action (s\<lparr>pc := pc s + 4 + push_bit 2 imm\<rparr>))
           else Inr (Next action (s\<lparr>pc := pc s + 4\<rparr>))))
       else Inr (Next action (s\<lparr>pc := pc s + 4\<rparr>)))))"

text \<open>Lines 141 to 147: the jump format.\<close>

definition exec_J :: "mips \<Rightarrow> decoded \<Rightarrow> step_result \<Rightarrow> pyerr + flow" where
  "exec_J s dec action =
     (if d_mnemonic dec = ''j'' then
        bind_exn (field (d_address dec)) (\<lambda>address.
          let target = (pc s AND 0xF0000000) OR (push_bit 2 address AND 0x0FFFFFFF) in
          Inr (Next action (s\<lparr>pc := target\<rparr>)))
      else
        Inr (Return (no_keys\<lparr>status := Some ''unknown_j'', r_decoded := Some dec\<rparr>)
                    (s\<lparr>halted := True\<rparr>)))"

text \<open>Lines 90 to 158.\<close>

definition step :: "mips \<Rightarrow> pyerr + (step_result \<times> mips)" where
  "step s =
     (if halted s then Inr (no_keys\<lparr>status := Some ''halted''\<rparr>, s)
      else case fetch_instr_at_pc s (pc s) of
        None \<Rightarrow>
          Inr (no_keys\<lparr>status := Some ''pc_out_of_range'', r_pc := Some (pc s)\<rparr>,
               s\<lparr>halted := True\<rparr>)
      | Some instr \<Rightarrow>
          bind_exn (decode instr) (\<lambda>dec.
            let action = no_keys\<lparr>r_pc := Some (pc s), r_instr := Some instr,
                                 r_decoded := Some dec\<rparr> in
            bind_exn
              (if d_type dec = ''R'' then exec_R s dec action
               else if d_type dec = ''I'' then exec_I s dec action
               else if d_type dec = ''J'' then exec_J s dec action
               else Inr (Return (no_keys\<lparr>status := Some ''unknown_type'',
                                          r_decoded := Some dec\<rparr>)
                                (s\<lparr>halted := True\<rparr>)))
              (\<lambda>fl. case fl of
                 Return r s1 \<Rightarrow> Inr (r, s1)
               | Next action1 s1 \<Rightarrow>
                   bind_exn (set_reg s1 0 0) (\<lambda>s2.
                     let s3 = s2\<lparr>step_count := step_count s2 + 1\<rparr> in
                     Inr (action1\<lparr>status := Some ''ok'', r_step := Some (step_count s3),
                                   r_regs_snapshot := Some (regs s3)\<rparr>, s3)))))"

text \<open>Lines 160 to 166: \<open>range(n)\<close> is empty for \<open>n \<le> 0\<close>.\<close>

fun run_loop :: "nat \<Rightarrow> mips \<Rightarrow> step_result list \<Rightarrow> pyerr + (step_result list \<times> mips)" where
  "run_loop 0 s actions = Inr (actions, s)"
| "run_loop (Suc k) s actions =
     (if halted s then Inr (actions, s)
      else bind_exn (step s) (\<lambda>(r, s1). run_loop k s1 (actions @ [r])))"

definition run_n :: "mips \<Rightarrow> int \<Rightarrow> pyerr + (step_result list \<times> mips)" where
  "run_n s n = run_loop (nat n) s []"

section \<open>Reachable machines and traces\<close>

text \<open>
  A machine is reachable when it was built by the constructor and then only changed by
  calls of \<open>step\<close> that returned (\<open>run_n\<close> changes the machine through \<open>step\<close>
  only).
\<close>

inductive reachable :: "mips \<Rightarrow> bool" where
  reachable_init: "reachable (SimpleMIPS instr_words base_pc)"
| reachable_step: "reachable s \<Longrightarrow> step s = Inr (r, s1) \<Longrightarrow> reachable s1"

code_pred reachable .

text \<open>
  \<open>step_seq s rs s1\<close>: the results \<open>rs\<close> are those of consecutive calls of \<open>step\<close>
  from \<open>s\<close>, each made with the halted flag clear, and they leave the machine \<open>s1\<close>.
\<close>

fun step_seq :: "mips \<Rightarrow> step_result list \<Rightarrow> mips \<Rightarrow> bool" where
  "step_seq s [] s1 \<longleftrightarrow> s1 = s"
| "step_seq s (r # rs) s1 \<longleftrightarrow>
     \<not> halted s \<and>
     (case step s of Inl e \<Rightarrow> False | Inr (r0, s0) \<Rightarrow> r0 = r \<and> step_seq s0 rs s1)"

text \<open>A value held in 32 bits, unsigned.\<close>

definition word32 :: "int \<Rightarrow> bool" where
  "word32 v \<longleftrightarrow> 0 \<le> v \<and> v < 2 ^ 32"

definition regs32 :: "int list \<Rightarrow> bool" where
  "regs32 xs \<longleftrightarrow> (\<forall>u\<in>set xs. word32 u)"

definition mem32 :: "(int \<rightharpoonup> int) \<Rightarrow> bool" where
  "mem32 m \<longleftrightarrow> (\<forall>a v. m a = Some v \<longrightarrow> word32 v)"

section \<open>Auxiliary facts\<close>

lemma mask5_range: "0 \<le> (x::int) AND 0x1F \<and> x AND 0x1F < 32"
proof -
  have "x AND 0x1F \<le> 0x1F" by (rule AND_upper2) simp
  then show ?thesis by simp
qed

lemma word32_mask: "word32 (x AND 0xFFFFFFFF)"
proof -
  have "x AND 0xFFFFFFFF \<le> 0xFFFFFFFF" by (rule AND_upper2) simp
  then show ?thesis by (simp add: word32_def)
qed

lemma word32_and: "word32 a \<Longrightarrow> word32 (a AND b)"
proof -
  assume a: "word32 a"
  then have "a AND b \<le> a" by (intro AND_upper1) (simp add: word32_def)
  with a show ?thesis by (simp add: word32_def)
qed

lemma word32_or: "word32 a \<Longrightarrow> word32 b \<Longrightarrow> word32 (a OR b)"
  using OR_upper [of a 32 b] by (simp add: word32_def)

lemma decode_R:
  "drop_bit 26 w AND 0x3F = 0 \<Longrightarrow>
   decode w = Inr \<lparr>d_type = ''R'', d_opcode = 0,
     d_mnemonic = dict_get R_FUNCTS (w AND 0x3F) (''unknown_r(0x'' @ fmt_02x (w AND 0x3F) @ '')''),
     d_rs = Some (drop_bit 21 w AND 0x1F), d_rt = Some (drop_bit 16 w AND 0x1F),
     d_rd = Some (drop_bit 11 w AND 0x1F), d_shamt = Some (drop_bit 6 w AND 0x1F),
     d_funct = Some (w AND 0x3F), d_imm = None, d_address = None\<rparr>"
  by (simp add: decode_def Let_def)

lemma decode_J:
  "drop_bit 26 w AND 0x3F = 2 \<Longrightarrow>
   decode w = Inr \<lparr>d_type = ''J'', d_opcode = 2, d_mnemonic = ''j'',
     d_rs = None, d_rt = None, d_rd = None, d_shamt = None,
     d_funct = None, d_imm = None, d_address = Some (w AND 0x03FFFFFF)\<rparr>"
  by (simp add: decode_def Let_def J_OPCODES_def dict_item_def bind_exn_def)

lemma decode_I:
  "drop_bit 26 w AND 0x3F \<noteq> 0 \<Longrightarrow> drop_bit 26 w AND 0x3F \<noteq> 2 \<Longrightarrow>
   decode w = Inr \<lparr>d_type = ''I'', d_opcode = drop_bit 26 w AND 0x3F,
     d_mnemonic = dict_get I_OPCODES (drop_bit 26 w AND 0x3F)
        (''unknown_i(0x'' @ fmt_02x (drop_bit 26 w AND 0x3F) @ '')''),
     d_rs = Some (drop_bit 21 w AND 0x1F), d_rt = Some (drop_bit 16 w AND 0x1F),
     d_rd = None, d_shamt = None, d_funct = None,
     d_imm = Some (if (w AND 0xFFFF) AND 0x8000 \<noteq> 0 then (w AND 0xFFFF) - 0x10000 else w AND 0xFFFF),
     d_address = None\<rparr>"
  by (simp add: decode_def Let_def J_OPCODES_def)


lemma get_reg_ok:
  "length (regs s) = 32 \<Longrightarrow> 0 \<le> i \<Longrightarrow> i < 32 \<Longrightarrow> get_reg s i = Inr (regs s ! nat i)"
  by (simp add: get_reg_def py_getitem_def py_index_def)

lemma set_reg_ok:
  "length (regs s) = 32 \<Longrightarrow> 0 \<le> i \<Longrightarrow> i < 32 \<Longrightarrow>
   set_reg s i v = Inr (s\<lparr>regs := (regs s)[nat i := v]\<rparr>)"
  by (simp add: set_reg_def py_setitem_def py_index_def bind_exn_def)

lemma bind_exn_Inr: "bind_exn (Inr v) f = f v"
  by (simp add: bind_exn_def)

lemma exec_R_eq:
  assumes "length (regs s) = 32"
    and "d_rs dec = Some rs" "0 \<le> rs" "rs < 32"
    and "d_rt dec = Some rt" "0 \<le> rt" "rt < 32"
    and "d_rd dec = Some rd" "0 \<le> rd" "rd < 32"
  shows "exec_R s dec a = Inr (Next a (s\<lparr>regs :=
      (let x = regs s ! nat rs; y = regs s ! nat rt; m = d_mnemonic dec in
       if m = ''add'' then (regs s)[nat rd := (x + y) AND 0xFFFFFFFF]
       else if m = ''sub'' then (regs s)[nat rd := (x - y) AND 0xFFFFFFFF]
       else if m = ''and'' then (regs s)[nat rd := x AND y]
       else if m = ''or'' then (regs s)[nat rd := x OR y]
       else if m = ''slt'' then
         (regs s)[nat rd := (if (x AND 0xFFFFFFFF) < (y AND 0xFFFFFFFF) then 1 else 0)]
       else regs s), pc := pc s + 4\<rparr>))"
  using assms
  by (simp add: exec_R_def field_def bind_exn_Inr get_reg_ok set_reg_ok Let_def)

lemma exec_I_eq:
  assumes "length (regs s) = 32"
    and "d_rs dec = Some rs" "0 \<le> rs" "rs < 32"
    and "d_rt dec = Some rt" "0 \<le> rt" "rt < 32"
    and "d_imm dec = Some imm"
  shows "exec_I s dec a =
     (let x = regs s ! nat rs; y = regs s ! nat rt; m = d_mnemonic dec in
      if m = ''addi'' then
        Inr (Next a (s\<lparr>regs := (regs s)[nat rt := (x + imm) AND 0xFFFFFFFF], pc := pc s + 4\<rparr>))
      else if m = ''lw'' then
        Inr (Next (a\<lparr>r_mem_access := Some \<lparr>ma_type = ''read'', ma_addr = x + imm,
                      ma_value = dict_get (mem s) (x + imm) 0\<rparr>\<rparr>)
              (s\<lparr>regs := (regs s)[nat rt := dict_get (mem s) (x + imm) 0], pc := pc s + 4\<rparr>))
      else if m = ''sw'' then
        Inr (Next (a\<lparr>r_mem_access := Some \<lparr>ma_type = ''write'', ma_addr = x + imm,
                      ma_value = y AND 0xFFFFFFFF\<rparr>\<rparr>)
              (s\<lparr>mem := (mem s)(x + imm \<mapsto> y AND 0xFFFFFFFF), pc := pc s + 4\<rparr>))
      else if m = ''beq'' then
        Inr (Next a (s\<lparr>pc := (if x = y then pc s + 4 + push_bit 2 imm else pc s + 4)\<rparr>))
      else if m = ''bne'' then
        Inr (Next a (s\<lparr>pc := (if x \<noteq> y then pc s + 4 + push_bit 2 imm else pc s + 4)\<rparr>))
      else Inr (Next a (s\<lparr>pc := pc s + 4\<rparr>)))"
  using assms
  by (simp add: exec_I_def field_def bind_exn_Inr get_reg_ok set_reg_ok Let_def dict_item_def)


lemma step_R_word:
  fixes s :: mips and w :: int
  defines "rs \<equiv> nat (drop_bit 21 w AND 0x1F)"
    and "rt \<equiv> nat (drop_bit 16 w AND 0x1F)"
    and "rd \<equiv> nat (drop_bit 11 w AND 0x1F)"
    and "m \<equiv> dict_get R_FUNCTS (w AND 0x3F) (''unknown_r(0x'' @ fmt_02x (w AND 0x3F) @ '')'')"
  defines "x \<equiv> regs s ! rs" and "y \<equiv> regs s ! rt"
  defines "rg \<equiv>
      (if m = ''add'' then (regs s)[rd := (x + y) AND 0xFFFFFFFF]
       else if m = ''sub'' then (regs s)[rd := (x - y) AND 0xFFFFFFFF]
       else if m = ''and'' then (regs s)[rd := x AND y]
       else if m = ''or'' then (regs s)[rd := x OR y]
       else if m = ''slt'' then
         (regs s)[rd := (if (x AND 0xFFFFFFFF) < (y AND 0xFFFFFFFF) then 1 else 0)]
       else regs s)[0 := 0]"
  assumes len: "length (regs s) = 32" and run: "\<not> halted s"
    and fetch: "fetch_instr_at_pc s (pc s) = Some w"
    and op: "drop_bit 26 w AND 0x3F = 0"
  shows "\<exists>dec. decode w = Inr dec \<and> step s =
     Inr (\<lparr>status = Some ''ok'', r_pc = Some (pc s), r_instr = Some w, r_decoded = Some dec,
           r_mem_access = None, r_step = Some (step_count s + 1), r_regs_snapshot = Some rg\<rparr>,
          s\<lparr>regs := rg, pc := pc s + 4, step_count := step_count s + 1\<rparr>)"
proof -
  note d = decode_R [OF op]
  note e = exec_R_eq [OF len, where rs = "drop_bit 21 w AND 0x1F"
      and rt = "drop_bit 16 w AND 0x1F" and rd = "drop_bit 11 w AND 0x1F"]
  show ?thesis
    unfolding rs_def rt_def rd_def m_def x_def y_def rg_def
    using len run fetch
    by (simp add: step_def d e mask5_range bind_exn_Inr set_reg_ok no_keys_def Let_def)
qed


lemma step_I_word:
  fixes s :: mips and w :: int
  defines "opc \<equiv> drop_bit 26 w AND 0x3F"
  defines "rs \<equiv> nat (drop_bit 21 w AND 0x1F)"
    and "rt \<equiv> nat (drop_bit 16 w AND 0x1F)"
    and "imm \<equiv> (if (w AND 0xFFFF) AND 0x8000 \<noteq> 0 then (w AND 0xFFFF) - 0x10000 else w AND 0xFFFF)"
    and "m \<equiv> dict_get I_OPCODES opc (''unknown_i(0x'' @ fmt_02x opc @ '')'')"
  defines "x \<equiv> regs s ! rs" and "y \<equiv> regs s ! rt"
  defines "addr \<equiv> x + imm"
  defines "rg \<equiv>
      (if m = ''addi'' then (regs s)[rt := (x + imm) AND 0xFFFFFFFF]
       else if m = ''lw'' then (regs s)[rt := dict_get (mem s) addr 0]
       else regs s)[0 := 0]"
    and "mm \<equiv> (if m = ''sw'' then (mem s)(addr \<mapsto> y AND 0xFFFFFFFF) else mem s)"
    and "p \<equiv>
      (if m = ''beq'' then (if x = y then pc s + 4 + push_bit 2 imm else pc s + 4)
       else if m = ''bne'' then (if x \<noteq> y then pc s + 4 + push_bit 2 imm else pc s + 4)
       else pc s + 4)"
    and "ma \<equiv>
      (if m = ''lw'' then
         Some \<lparr>ma_type = ''read'', ma_addr = addr, ma_value = dict_get (mem s) addr 0\<rparr>
       else if m = ''sw'' then
         Some \<lparr>ma_type = ''write'', ma_addr = addr, ma_value = y AND 0xFFFFFFFF\<rparr>
       else None)"
  assumes len: "length (regs s) = 32" and run: "\<not> halted s"
    and fetch: "fetch_instr_at_pc s (pc s) = Some w"
    and op: "opc \<noteq> 0" "opc \<noteq> 2"
  shows "\<exists>dec. decode w = Inr dec \<and> step s =
     Inr (\<lparr>status = Some ''ok'', r_pc = Some (pc s), r_instr = Some w, r_decoded = Some dec,
           r_mem_access = ma, r_step = Some (step_count s + 1), r_regs_snapshot = Some rg\<rparr>,
          s\<lparr>regs := rg, mem := mm, pc := p, step_count := step_count s + 1\<rparr>)"
proof -
  note d = decode_I [OF op [unfolded opc_def]]
  note e = exec_I_eq [OF len, where rs = "drop_bit 21 w AND 0x1F"
      and rt = "drop_bit 16 w AND 0x1F"]
  show ?thesis
    unfolding rs_def rt_def imm_def m_def x_def y_def rg_def mm_def p_def ma_def addr_def opc_def
    using len run fetch
    by (simp add: step_def d e mask5_range bind_exn_Inr set_reg_ok no_keys_def Let_def)
qed

lemma step_J_word:
  assumes len: "length (regs s) = 32" and run: "\<not> halted s"
    and fetch: "fetch_instr_at_pc s (pc s) = Some w"
    and op: "drop_bit 26 w AND 0x3F = 2"
  shows "\<exists>dec. decode w = Inr dec \<and> step s =
     Inr (\<lparr>status = Some ''ok'', r_pc = Some (pc s), r_instr = Some w, r_decoded = Some dec,
           r_mem_access = None, r_step = Some (step_count s + 1),
           r_regs_snapshot = Some ((regs s)[0 := 0])\<rparr>,
          s\<lparr>regs := (regs s)[0 := 0],
            pc := (pc s AND 0xF0000000) OR (push_bit 2 (w AND 0x03FFFFFF) AND 0x0FFFFFFF),
            step_count := step_count s + 1\<rparr>)"
  using len run fetch
  by (simp add: step_def decode_J [OF op] exec_J_def field_def bind_exn_Inr set_reg_ok
      no_keys_def Let_def)


lemma step_stop:
  assumes "halted s \<or> fetch_instr_at_pc s (pc s) = None"
  shows "\<exists>r. step s = Inr (r, s\<lparr>halted := True\<rparr>) \<and>
     status r = Some (if halted s then ''halted'' else ''pc_out_of_range'')"
  using assms by (auto simp: step_def no_keys_def)

lemma step_go:
  assumes len: "length (regs s) = 32" and run: "\<not> halted s"
    and fetch: "fetch_instr_at_pc s (pc s) = Some w"
  shows "\<exists>r s1. step s = Inr (r, s1) \<and> status r = Some ''ok'' \<and> length (regs s1) = 32 \<and>
     regs s1 ! 0 = 0 \<and> \<not> halted s1 \<and> base s1 = base s \<and> instrs s1 = instrs s \<and>
     step_count s1 = step_count s + 1"
proof -
  consider (R) "drop_bit 26 w AND 0x3F = 0" | (J) "drop_bit 26 w AND 0x3F = 2"
    | (I) "drop_bit 26 w AND 0x3F \<noteq> 0" "drop_bit 26 w AND 0x3F \<noteq> 2"
    by blast
  then show ?thesis
  proof cases
    case R
    from step_R_word [OF len run fetch R] show ?thesis using len run by auto
  next
    case J
    from step_J_word [OF len run fetch J] show ?thesis using len run by auto
  next
    case I
    from step_I_word [OF len run fetch I] show ?thesis using len run by auto
  qed
qed

lemma step_total:
  assumes len: "length (regs s) = 32"
  shows "\<exists>r s1. step s = Inr (r, s1) \<and> length (regs s1) = 32"
proof (cases "halted s \<or> fetch_instr_at_pc s (pc s) = None")
  case True
  from step_stop [OF True] len show ?thesis by auto
next
  case False
  then obtain w where "\<not> halted s" "fetch_instr_at_pc s (pc s) = Some w" by auto
  from step_go [OF len this] show ?thesis by blast
qed

lemma reachable_len: "reachable s \<Longrightarrow> length (regs s) = 32"
proof (induction rule: reachable.induct)
  case (reachable_init instr_words base_pc)
  show ?case by (simp add: SimpleMIPS_def)
next
  case (reachable_step s r s1)
  with step_total [of s] show ?case by auto
qed

section \<open>Halting\<close>

text \<open>
  C6: when the halted flag is set, \<open>step\<close> returns a result whose only key is the status
  \<open>halted\<close> and leaves the whole machine (registers, memory, program counter, step counter,
  instruction memory, halted flag) as it was, so any number of further calls does the same.
\<close>

theorem step_halted_noop:
  "halted s \<Longrightarrow> step s = Inr (no_keys\<lparr>status := Some ''halted''\<rparr>, s)"
  by (simp add: step_def)

theorem step_halted_noop_witness:
  "halted ((SimpleMIPS [] DEFAULT_BASE_PC)\<lparr>halted := True\<rparr>) \<and>
   step ((SimpleMIPS [] DEFAULT_BASE_PC)\<lparr>halted := True\<rparr>) =
     Inr (no_keys\<lparr>status := Some ''halted''\<rparr>, (SimpleMIPS [] DEFAULT_BASE_PC)\<lparr>halted := True\<rparr>)"
  using step_halted_noop [of "(SimpleMIPS [] DEFAULT_BASE_PC)\<lparr>halted := True\<rparr>"]
  by simp

lemma decode_total: "\<exists>dec. decode w = Inr dec"
proof -
  consider (R) "drop_bit 26 w AND 0x3F = 0" | (J) "drop_bit 26 w AND 0x3F = 2"
    | (I) "drop_bit 26 w AND 0x3F \<noteq> 0" "drop_bit 26 w AND 0x3F \<noteq> 2"
    by blast
  then show ?thesis
    by cases (simp_all add: decode_R decode_J decode_I)
qed

lemma decode_is_R:
  assumes "decode w = Inr dec" and "d_type dec = ''R''"
  shows "drop_bit 26 w AND 0x3F = 0"
proof (rule ccontr)
  assume n: "drop_bit 26 w AND 0x3F \<noteq> 0"
  show False
  proof (cases "drop_bit 26 w AND 0x3F = 2")
    case True
    from decode_J [OF True] assms show False by auto
  next
    case False
    from decode_I [OF n False] assms show False by auto
  qed
qed

lemma decode_is_J:
  assumes "decode w = Inr dec" and "d_type dec = ''J''"
  shows "drop_bit 26 w AND 0x3F = 2"
proof (rule ccontr)
  assume n: "drop_bit 26 w AND 0x3F \<noteq> 2"
  show False
  proof (cases "drop_bit 26 w AND 0x3F = 0")
    case True
    from decode_R [OF True] assms show False by auto
  next
    case False
    from decode_I [OF False n] assms show False by auto
  qed
qed

lemma decode_is_I:
  assumes "decode w = Inr dec" and "d_type dec = ''I''"
  shows "drop_bit 26 w AND 0x3F \<noteq> 0 \<and> drop_bit 26 w AND 0x3F \<noteq> 2"
proof (intro conjI notI)
  assume z: "drop_bit 26 w AND 0x3F = 0"
  from decode_R [OF z] assms show False by auto
next
  assume z: "drop_bit 26 w AND 0x3F = 2"
  from decode_J [OF z] assms show False by auto
qed

section \<open>The jump target\<close>

text \<open>
  C1, as amended: executing the jump instruction sets the program counter to
  \<open>(pc AND 0xF0000000) OR ((address << 2) AND 0x0FFFFFFF)\<close>. With the program counter
  0x00400000 and the address field 0x00000010 that is 0x00000040: the upper four bits of
  0x00400000 are zero, and the rest of it is replaced by the shifted field. (The claim
  gave 0x00400040 for this input.)
\<close>

theorem jump_target:
  assumes "reachable s" and "\<not> halted s" and "fetch_instr_at_pc s (pc s) = Some w"
    and "decode w = Inr dec" and "d_type dec = ''J''" and "d_address dec = Some a"
  shows "\<exists>r s1. step s = Inr (r, s1) \<and> status r = Some ''ok'' \<and>
     pc s1 = (pc s AND 0xF0000000) OR (push_bit 2 a AND 0x0FFFFFFF) \<and>
     (pc s = 0x00400000 \<and> a = 0x00000010 \<longrightarrow> pc s1 = 0x00000040)"
proof -
  have op: "drop_bit 26 w AND 0x3F = 2"
    using assms(4,5) by (rule decode_is_J)
  have a: "a = w AND 0x03FFFFFF"
    using decode_J [OF op] assms(4,6) by auto
  from step_J_word [OF reachable_len [OF assms(1)] assms(2,3) op]
  obtain r s1 where s: "step s = Inr (r, s1)" "status r = Some ''ok''"
    "pc s1 = (pc s AND 0xF0000000) OR (push_bit 2 a AND 0x0FFFFFFF)"
    unfolding a by auto
  have "pc s = 0x00400000 \<and> a = 0x00000010 \<longrightarrow> pc s1 = 0x00000040"
    using s(3) by simp
  with s show ?thesis by blast
qed

theorem jump_target_witness:
  "reachable (SimpleMIPS [0x08000010] 0x00400000) \<and>
   \<not> halted (SimpleMIPS [0x08000010] 0x00400000) \<and>
   fetch_instr_at_pc (SimpleMIPS [0x08000010] 0x00400000)
     (pc (SimpleMIPS [0x08000010] 0x00400000)) = Some 0x08000010 \<and>
   map_sum id d_type (decode 0x08000010) = Inr ''J'' \<and>
   map_sum id d_address (decode 0x08000010) = Inr (Some 0x00000010) \<and>
   (\<exists>r s1. step (SimpleMIPS [0x08000010] 0x00400000) = Inr (r, s1) \<and>
      status r = Some ''ok'' \<and> pc s1 = 0x00000040)"
proof -
  let ?s = "SimpleMIPS [0x08000010] 0x00400000"
  have a: "reachable ?s" by (rule reachable_init)
  have b: "\<not> halted ?s" by (simp add: SimpleMIPS_def)
  have c: "fetch_instr_at_pc ?s (pc ?s) = Some 0x08000010"
    by (simp add: SimpleMIPS_def fetch_instr_at_pc_def)
  have d: "decode 0x08000010 = Inr \<lparr>d_type = ''J'', d_opcode = 2, d_mnemonic = ''j'',
     d_rs = None, d_rt = None, d_rd = None, d_shamt = None,
     d_funct = None, d_imm = None, d_address = Some 0x00000010\<rparr>"
    by (simp add: decode_J)
  have p: "pc ?s = 0x00400000" by (simp add: SimpleMIPS_def)
  from jump_target [OF a b c d, of "0x00000010"] p
  have "\<exists>r s1. step ?s = Inr (r, s1) \<and> status r = Some ''ok'' \<and> pc s1 = 0x00000040"
    by simp
  with a b c d show ?thesis by simp
qed

text \<open>The claim's example, run on the code: the next program counter is 0x00000040.\<close>

theorem jump_example_counterexample:
  "pc (SimpleMIPS [0x08000010] 0x00400000) = 0x00400000 \<and>
   fetch_instr_at_pc (SimpleMIPS [0x08000010] 0x00400000) 0x00400000 = Some 0x08000010 \<and>
   map_sum id d_mnemonic (decode 0x08000010) = Inr ''j'' \<and>
   map_sum id d_address (decode 0x08000010) = Inr (Some 0x00000010) \<and>
   map_sum id (pc \<circ> snd) (step (SimpleMIPS [0x08000010] 0x00400000)) = Inr 0x00000040 \<and>
   map_sum id (pc \<circ> snd) (step (SimpleMIPS [0x08000010] 0x00400000)) \<noteq> Inr 0x00400040"
  by (simp add: step_def SimpleMIPS_def fetch_instr_at_pc_def decode_J exec_J_def field_def
      bind_exn_Inr set_reg_def py_setitem_def py_index_def no_keys_def Let_def)

section \<open>Register zero\<close>

lemma step_zero:
  assumes len: "length (regs s) = 32" and z: "regs s ! 0 = 0" and st: "step s = Inr (r, s1)"
  shows "regs s1 ! 0 = 0"
proof (cases "halted s \<or> fetch_instr_at_pc s (pc s) = None")
  case True
  from step_stop [OF True] st z show ?thesis by auto
next
  case False
  then obtain w where "\<not> halted s" "fetch_instr_at_pc s (pc s) = Some w" by auto
  from step_go [OF len this] st show ?thesis by auto
qed

lemma reachable_zero: "reachable s \<Longrightarrow> regs s ! 0 = 0"
proof (induction rule: reachable.induct)
  case (reachable_init instr_words base_pc)
  show ?case by (simp add: SimpleMIPS_def)
next
  case (reachable_step s r s1)
  then show ?case using step_zero reachable_len by blast
qed

text \<open>
  C4: from every reachable machine, \<open>step\<close> returns, and in the machine it leaves register 0
  reads as 0, whatever the executed instruction named as its destination.
\<close>

theorem register_zero_after_step:
  assumes "reachable s"
  shows "\<exists>r s1. step s = Inr (r, s1) \<and> get_reg s1 0 = Inr 0"
proof -
  from step_total [OF reachable_len [OF assms]]
  obtain r s1 where st: "step s = Inr (r, s1)" and len: "length (regs s1) = 32"
    by blast
  have "regs s1 ! 0 = 0"
    using reachable_len [OF assms] reachable_zero [OF assms] st by (rule step_zero)
  with len have "get_reg s1 0 = Inr 0"
    by (simp add: get_reg_ok)
  with st show ?thesis by blast
qed

text \<open>The witness executes \<open>addi $0, $0, 5\<close>, whose destination is register 0.\<close>

theorem register_zero_after_step_witness:
  "reachable (SimpleMIPS [0x20000005] DEFAULT_BASE_PC) \<and>
   map_sum id d_mnemonic (decode 0x20000005) = Inr ''addi'' \<and>
   map_sum id d_rt (decode 0x20000005) = Inr (Some 0) \<and>
   (\<exists>r s1. step (SimpleMIPS [0x20000005] DEFAULT_BASE_PC) = Inr (r, s1) \<and>
      get_reg s1 0 = Inr 0)"
proof -
  have a: "reachable (SimpleMIPS [0x20000005] DEFAULT_BASE_PC)"
    by (rule reachable_init)
  have d: "map_sum id d_mnemonic (decode 0x20000005) = Inr ''addi'' \<and>
     map_sum id d_rt (decode 0x20000005) = Inr (Some 0)"
    by (simp add: decode_I I_OPCODES_def dict_get_def)
  from register_zero_after_step [OF a] a d show ?thesis by simp
qed

section \<open>Unrecognized function codes\<close>

lemma dict_get_None: "d k = None \<Longrightarrow> dict_get d k x = x"
  by (simp add: dict_get_def)

text \<open>
  C9: when the fetched word decodes to the register format with a function code that is
  not in \<open>R_FUNCTS\<close>, \<open>step\<close> on a reachable, running machine returns status \<open>ok\<close> and
  changes only the program counter (by 4) and the step counter (by 1): registers and
  memory are as before.
\<close>

theorem unknown_funct_noop:
  assumes "reachable s" and "\<not> halted s" and "fetch_instr_at_pc s (pc s) = Some w"
    and "decode w = Inr dec" and "d_type dec = ''R''"
    and "d_funct dec = Some f" and "R_FUNCTS f = None"
  shows "\<exists>r. step s = Inr (r, s\<lparr>pc := pc s + 4, step_count := step_count s + 1\<rparr>) \<and>
     status r = Some ''ok''"
proof -
  have op: "drop_bit 26 w AND 0x3F = 0"
    using assms(4,5) by (rule decode_is_R)
  have f: "f = w AND 0x3F"
    using decode_R [OF op] assms(4,6) by auto
  have m: "dict_get R_FUNCTS (w AND 0x3F) x = x" for x
    using assms(7) unfolding f by (rule dict_get_None)
  have z: "(regs s)[0 := 0] = regs s"
    using reachable_zero [OF assms(1)] by (metis list_update_id)
  from step_R_word [OF reachable_len [OF assms(1)] assms(2,3) op]
  show ?thesis by (auto simp: m z)
qed

theorem unknown_funct_noop_witness:
  "reachable (SimpleMIPS [0x0022183F] DEFAULT_BASE_PC) \<and>
   \<not> halted (SimpleMIPS [0x0022183F] DEFAULT_BASE_PC) \<and>
   fetch_instr_at_pc (SimpleMIPS [0x0022183F] DEFAULT_BASE_PC)
     (pc (SimpleMIPS [0x0022183F] DEFAULT_BASE_PC)) = Some 0x0022183F \<and>
   map_sum id d_type (decode 0x0022183F) = Inr ''R'' \<and>
   map_sum id d_funct (decode 0x0022183F) = Inr (Some 0x3F) \<and>
   map_sum id d_mnemonic (decode 0x0022183F) = Inr ''unknown_r(0x3f)'' \<and>
   R_FUNCTS 0x3F = None \<and>
   (\<exists>r. step (SimpleMIPS [0x0022183F] DEFAULT_BASE_PC) =
      Inr (r, (SimpleMIPS [0x0022183F] DEFAULT_BASE_PC)
                \<lparr>pc := DEFAULT_BASE_PC + 4, step_count := 1\<rparr>) \<and>
      status r = Some ''ok'')"
proof -
  let ?s = "SimpleMIPS [0x0022183F] DEFAULT_BASE_PC"
  have a: "reachable ?s" by (rule reachable_init)
  have b: "\<not> halted ?s" by (simp add: SimpleMIPS_def)
  have c: "fetch_instr_at_pc ?s (pc ?s) = Some 0x0022183F"
    by (simp add: SimpleMIPS_def fetch_instr_at_pc_def)
  have d: "decode 0x0022183F = Inr \<lparr>d_type = ''R'', d_opcode = 0,
     d_mnemonic = ''unknown_r(0x3f)'', d_rs = Some 1, d_rt = Some 2, d_rd = Some 3,
     d_shamt = Some 0, d_funct = Some 0x3F, d_imm = None, d_address = None\<rparr>"
    by (simp add: decode_R R_FUNCTS_def dict_get_def fmt_02x_def hex_digit_def)
  have e: "R_FUNCTS 0x3F = None" by (simp add: R_FUNCTS_def)
  have p: "pc ?s = DEFAULT_BASE_PC" "step_count ?s = 0" by (simp_all add: SimpleMIPS_def)
  from unknown_funct_noop [OF a b c d _ _ e] p
  have "\<exists>r. step ?s = Inr (r, ?s\<lparr>pc := DEFAULT_BASE_PC + 4, step_count := 1\<rparr>) \<and>
      status r = Some ''ok''"
    by simp
  with a b c d e show ?thesis by simp
qed

section \<open>Statuses\<close>

lemma decode_shape:
  assumes "decode w = Inr dec"
  shows "(d_type dec = ''R'' \<or> d_type dec = ''I'' \<or> d_type dec = ''J'') \<and>
     (d_type dec = ''J'' \<longrightarrow>
        J_OPCODES (drop_bit 26 w AND 0x3F) \<noteq> None \<and> d_mnemonic dec = ''j'')"
proof -
  consider (R) "drop_bit 26 w AND 0x3F = 0" | (J) "drop_bit 26 w AND 0x3F = 2"
    | (I) "drop_bit 26 w AND 0x3F \<noteq> 0" "drop_bit 26 w AND 0x3F \<noteq> 2"
    by blast
  then show ?thesis
  proof cases
    case R
    from decode_R [OF R] assms show ?thesis by auto
  next
    case J
    from decode_J [OF J] assms show ?thesis by (auto simp: J J_OPCODES_def)
  next
    case I
    from decode_I [OF I] assms show ?thesis by auto
  qed
qed

lemma exec_R_flow: "exec_R s dec a = Inr fl \<Longrightarrow> \<exists>a1 s1. fl = Next a1 s1"
  by (auto simp: exec_R_def bind_exn_def split: sum.splits if_splits)

lemma exec_I_flow: "exec_I s dec a = Inr fl \<Longrightarrow> \<exists>a1 s1. fl = Next a1 s1"
  by (auto simp: exec_I_def bind_exn_def Let_def split: sum.splits if_splits)

lemma exec_J_flow:
  "d_mnemonic dec = ''j'' \<Longrightarrow> exec_J s dec a = Inr fl \<Longrightarrow> \<exists>a1 s1. fl = Next a1 s1"
  by (auto simp: exec_J_def bind_exn_def Let_def split: sum.splits)

lemma step_status:
  assumes "step s = Inr (r, s1)"
  shows "status r = Some ''ok'' \<or> status r = Some ''halted'' \<or>
     status r = Some ''pc_out_of_range''"
proof (cases "halted s \<or> fetch_instr_at_pc s (pc s) = None")
  case True
  from step_stop [OF True] assms show ?thesis by auto
next
  case False
  then obtain w where run: "\<not> halted s" and fetch: "fetch_instr_at_pc s (pc s) = Some w"
    by auto
  obtain dec where dec: "decode w = Inr dec"
    using decode_total by blast
  note sh = decode_shape [OF dec]
  let ?a = "no_keys\<lparr>r_pc := Some (pc s), r_instr := Some w, r_decoded := Some dec\<rparr>"
  let ?d = "if d_type dec = ''R'' then exec_R s dec ?a
            else if d_type dec = ''I'' then exec_I s dec ?a
            else exec_J s dec ?a"
  have st: "step s = bind_exn ?d (\<lambda>fl. case fl of
        Return r s1 \<Rightarrow> Inr (r, s1)
      | Next action1 s1 \<Rightarrow>
          bind_exn (set_reg s1 0 0) (\<lambda>s2.
            let s3 = s2\<lparr>step_count := step_count s2 + 1\<rparr> in
            Inr (action1\<lparr>status := Some ''ok'', r_step := Some (step_count s3),
                          r_regs_snapshot := Some (regs s3)\<rparr>, s3)))"
    using run fetch dec sh by (auto simp: step_def bind_exn_Inr Let_def)
  from assms obtain fl where fl: "?d = Inr fl"
    unfolding st by (cases ?d) (simp_all add: bind_exn_def)
  have "\<exists>a1 s2. fl = Next a1 s2"
    using fl sh exec_R_flow exec_I_flow exec_J_flow by (auto split: if_splits)
  then obtain a1 s2 where n: "fl = Next a1 s2" by blast
  from assms show ?thesis
    unfolding st fl n by (auto simp: bind_exn_def Let_def split: sum.splits)
qed

text \<open>
  C10: \<open>decode\<close> returns for every word, the format it returns is one of \<open>R\<close>, \<open>I\<close>
  and \<open>J\<close>, and it is \<open>J\<close> only for an opcode in \<open>J_OPCODES\<close>, with the mnemonic \<open>j\<close>.
  So no call of \<open>step\<close> that returns has the status \<open>unknown_j\<close> or \<open>unknown_type\<close>.
\<close>

theorem unknown_statuses_unreachable:
  "(\<exists>dec. decode w = Inr dec \<and>
      (d_type dec = ''R'' \<or> d_type dec = ''I'' \<or> d_type dec = ''J'') \<and>
      (d_type dec = ''J'' \<longrightarrow>
         J_OPCODES (drop_bit 26 w AND 0x3F) \<noteq> None \<and> d_mnemonic dec = ''j'')) \<and>
   (step s = Inr (r, s1) \<longrightarrow>
      status r \<noteq> Some ''unknown_j'' \<and> status r \<noteq> Some ''unknown_type'')"
proof
  obtain dec where dec: "decode w = Inr dec"
    using decode_total by blast
  with decode_shape [OF dec]
  show "\<exists>dec. decode w = Inr dec \<and>
      (d_type dec = ''R'' \<or> d_type dec = ''I'' \<or> d_type dec = ''J'') \<and>
      (d_type dec = ''J'' \<longrightarrow>
         J_OPCODES (drop_bit 26 w AND 0x3F) \<noteq> None \<and> d_mnemonic dec = ''j'')"
    by blast
  show "step s = Inr (r, s1) \<longrightarrow>
      status r \<noteq> Some ''unknown_j'' \<and> status r \<noteq> Some ''unknown_type''"
    using step_status [of s r s1] by auto
qed


theorem unknown_statuses_unreachable_witness:
  "map_sum id d_type (decode 0x08000010) = Inr ''J'' \<and>
   J_OPCODES (drop_bit 26 0x08000010 AND 0x3F) \<noteq> None \<and>
   map_sum id d_mnemonic (decode 0x08000010) = Inr ''j'' \<and>
   (\<exists>r s1. step (SimpleMIPS [0x08000010] DEFAULT_BASE_PC) = Inr (r, s1) \<and>
      status r \<noteq> Some ''unknown_j'' \<and> status r \<noteq> Some ''unknown_type'')"
proof -
  let ?s = "SimpleMIPS [0x08000010] DEFAULT_BASE_PC"
  have "length (regs ?s) = 32" by (simp add: SimpleMIPS_def)
  from step_total [OF this] obtain r s1 where st: "step ?s = Inr (r, s1)"
    by blast
  have d: "decode 0x08000010 = Inr \<lparr>d_type = ''J'', d_opcode = 2, d_mnemonic = ''j'',
     d_rs = None, d_rt = None, d_rd = None, d_shamt = None,
     d_funct = None, d_imm = None, d_address = Some 0x00000010\<rparr>"
    by (simp add: decode_J)
  from unknown_statuses_unreachable [of "0x08000010" ?s r s1] st d
  show ?thesis by auto
qed

section \<open>No exception leaves step\<close>

lemma decode_fields:
  assumes "decode w = Inr dec" and "d_rs dec = Some i \<or> d_rt dec = Some i \<or> d_rd dec = Some i"
  shows "0 \<le> i \<and> i < 32"
proof -
  consider (R) "drop_bit 26 w AND 0x3F = 0" | (J) "drop_bit 26 w AND 0x3F = 2"
    | (I) "drop_bit 26 w AND 0x3F \<noteq> 0" "drop_bit 26 w AND 0x3F \<noteq> 2"
    by blast
  then show ?thesis
  proof cases
    case R
    from decode_R [OF R] assms show ?thesis by (auto simp: mask5_range)
  next
    case J
    from decode_J [OF J] assms show ?thesis by auto
  next
    case I
    from decode_I [OF I] assms show ?thesis by (auto simp: mask5_range)
  qed
qed

lemma step_lw_absent:
  assumes len: "length (regs s) = 32" and run: "\<not> halted s"
    and fetch: "fetch_instr_at_pc s (pc s) = Some w"
    and dec: "decode w = Inr dec" "d_type dec = ''I''" "d_mnemonic dec = ''lw''"
      "d_rs dec = Some i" "d_imm dec = Some k"
    and absent: "mem s (regs s ! nat i + k) = None"
    and st: "step s = Inr (r, s1)"
  shows "r_mem_access r =
     Some \<lparr>ma_type = ''read'', ma_addr = regs s ! nat i + k, ma_value = 0\<rparr>"
proof -
  note op = decode_is_I [OF dec(1,2)]
  from decode_I [of w] op dec
  have m: "dict_get I_OPCODES (drop_bit 26 w AND 0x3F)
       (''unknown_i(0x'' @ fmt_02x (drop_bit 26 w AND 0x3F) @ '')'') = ''lw''"
    and i: "i = drop_bit 21 w AND 0x1F"
    and k: "k = (if (w AND 0xFFFF) AND 0x8000 \<noteq> 0 then (w AND 0xFFFF) - 0x10000
                 else w AND 0xFFFF)"
    by auto
  have z: "dict_get (mem s) (regs s ! nat i + k) 0 = 0"
    using absent by (simp add: dict_get_def)
  from step_I_word [OF len run fetch] op st
  show ?thesis
    unfolding m i [symmetric] k [symmetric] by (auto simp: z)
qed

text \<open>
  C8: from every reachable machine \<open>step\<close> returns a result (no \<open>IndexError\<close>, no
  \<open>KeyError\<close>) whose status is set; \<open>decode\<close> returns for every word, with each register
  index it extracts in 0 to 31; and a load from an address that memory does not hold
  reads 0.
\<close>

theorem step_never_raises:
  assumes "reachable s"
  shows "(\<exists>r s1. step s = Inr (r, s1) \<and>
      (status r = Some ''ok'' \<or> status r = Some ''halted'' \<or>
       status r = Some ''pc_out_of_range'') \<and>
      (\<forall>w dec i k. \<not> halted s \<and> fetch_instr_at_pc s (pc s) = Some w \<and>
         decode w = Inr dec \<and> d_type dec = ''I'' \<and> d_mnemonic dec = ''lw'' \<and>
         d_rs dec = Some i \<and> d_imm dec = Some k \<and> mem s (regs s ! nat i + k) = None \<longrightarrow>
         r_mem_access r =
           Some \<lparr>ma_type = ''read'', ma_addr = regs s ! nat i + k, ma_value = 0\<rparr>)) \<and>
     (\<exists>dec. decode v = Inr dec \<and>
        (\<forall>i. d_rs dec = Some i \<or> d_rt dec = Some i \<or> d_rd dec = Some i \<longrightarrow>
           0 \<le> i \<and> i < 32))"
proof
  note len = reachable_len [OF assms]
  from step_total [OF len] obtain r s1 where st: "step s = Inr (r, s1)"
    by blast
  note step_status [OF st]
  moreover have "\<forall>w dec i k. \<not> halted s \<and> fetch_instr_at_pc s (pc s) = Some w \<and>
         decode w = Inr dec \<and> d_type dec = ''I'' \<and> d_mnemonic dec = ''lw'' \<and>
         d_rs dec = Some i \<and> d_imm dec = Some k \<and> mem s (regs s ! nat i + k) = None \<longrightarrow>
         r_mem_access r =
           Some \<lparr>ma_type = ''read'', ma_addr = regs s ! nat i + k, ma_value = 0\<rparr>"
    using step_lw_absent [OF len _ _ _ _ _ _ _ _ st] by blast
  ultimately show "\<exists>r s1. step s = Inr (r, s1) \<and>
      (status r = Some ''ok'' \<or> status r = Some ''halted'' \<or>
       status r = Some ''pc_out_of_range'') \<and>
      (\<forall>w dec i k. \<not> halted s \<and> fetch_instr_at_pc s (pc s) = Some w \<and>
         decode w = Inr dec \<and> d_type dec = ''I'' \<and> d_mnemonic dec = ''lw'' \<and>
         d_rs dec = Some i \<and> d_imm dec = Some k \<and> mem s (regs s ! nat i + k) = None \<longrightarrow>
         r_mem_access r =
           Some \<lparr>ma_type = ''read'', ma_addr = regs s ! nat i + k, ma_value = 0\<rparr>)"
    using st by blast
  obtain dec where dec: "decode v = Inr dec"
    using decode_total by blast
  with decode_fields [OF dec]
  show "\<exists>dec. decode v = Inr dec \<and>
        (\<forall>i. d_rs dec = Some i \<or> d_rt dec = Some i \<or> d_rd dec = Some i \<longrightarrow>
           0 \<le> i \<and> i < 32)"
    by blast
qed

text \<open>The witness executes \<open>lw $1, 8($0)\<close> on a machine whose memory is empty.\<close>

theorem step_never_raises_witness:
  "reachable (SimpleMIPS [0x8C010008] DEFAULT_BASE_PC) \<and>
   decode 0x8C010008 = Inr \<lparr>d_type = ''I'', d_opcode = 0x23, d_mnemonic = ''lw'',
     d_rs = Some 0, d_rt = Some 1, d_rd = None, d_shamt = None, d_funct = None,
     d_imm = Some 8, d_address = None\<rparr> \<and>
   mem (SimpleMIPS [0x8C010008] DEFAULT_BASE_PC) 8 = None \<and>
   (\<exists>r s1. step (SimpleMIPS [0x8C010008] DEFAULT_BASE_PC) = Inr (r, s1) \<and>
      status r = Some ''ok'' \<and>
      r_mem_access r = Some \<lparr>ma_type = ''read'', ma_addr = 8, ma_value = 0\<rparr>)"
proof -
  let ?s = "SimpleMIPS [0x8C010008] DEFAULT_BASE_PC"
  have a: "reachable ?s" by (rule reachable_init)
  have b: "\<not> halted ?s" by (simp add: SimpleMIPS_def)
  have c: "fetch_instr_at_pc ?s (pc ?s) = Some 0x8C010008"
    by (simp add: SimpleMIPS_def fetch_instr_at_pc_def)
  have d: "decode 0x8C010008 = Inr \<lparr>d_type = ''I'', d_opcode = 0x23, d_mnemonic = ''lw'',
     d_rs = Some 0, d_rt = Some 1, d_rd = None, d_shamt = None, d_funct = None,
     d_imm = Some 8, d_address = None\<rparr>"
    by (simp add: decode_I I_OPCODES_def dict_get_def)
  have e: "mem ?s 8 = None" "regs ?s ! 0 = 0" by (simp_all add: SimpleMIPS_def)
  from step_never_raises [OF a, of 0]
  obtain r s1 where st: "step ?s = Inr (r, s1)"
    and l: "\<And>w dec i k. \<not> halted ?s \<and> fetch_instr_at_pc ?s (pc ?s) = Some w \<and>
         decode w = Inr dec \<and> d_type dec = ''I'' \<and> d_mnemonic dec = ''lw'' \<and>
         d_rs dec = Some i \<and> d_imm dec = Some k \<and> mem ?s (regs ?s ! nat i + k) = None \<Longrightarrow>
         r_mem_access r =
           Some \<lparr>ma_type = ''read'', ma_addr = regs ?s ! nat i + k, ma_value = 0\<rparr>"
    by blast
  have ma: "r_mem_access r = Some \<lparr>ma_type = ''read'', ma_addr = 8, ma_value = 0\<rparr>"
    using l [of "0x8C010008" _ 0 8] b c d e by simp
  from step_go [OF reachable_len [OF a] b c] st have "status r = Some ''ok''"
    by auto
  with a d e st ma show ?thesis by blast
qed

section \<open>Values stay in 32 bits\<close>

lemma mask5_nat: "nat ((x::int) AND 0x1F) < 32"
  using mask5_range [of x] by linarith

lemma regs32_update: "regs32 xs \<Longrightarrow> word32 v \<Longrightarrow> regs32 (xs[i := v])"
  unfolding regs32_def using set_update_subset_insert [of xs i v] by auto

lemma regs32_nth: "regs32 xs \<Longrightarrow> i < length xs \<Longrightarrow> word32 (xs ! i)"
  by (simp add: regs32_def)

lemma word32_consts: "word32 0" "word32 1"
  by (simp_all add: word32_def)

lemma mem32_update: "mem32 m \<Longrightarrow> word32 v \<Longrightarrow> mem32 (m(a \<mapsto> v))"
  by (simp add: mem32_def)

lemma mem32_get: "mem32 m \<Longrightarrow> word32 (dict_get m a 0)"
  by (cases "m a") (auto simp: dict_get_def mem32_def word32_consts)

lemma step_word32:
  assumes len: "length (regs s) = 32" and rg: "regs32 (regs s)" and mm: "mem32 (mem s)"
    and st: "step s = Inr (r, s1)"
  shows "regs32 (regs s1) \<and> mem32 (mem s1)"
proof (cases "halted s \<or> fetch_instr_at_pc s (pc s) = None")
  case True
  from step_stop [OF True] st rg mm show ?thesis by auto
next
  case False
  then obtain w where run: "\<not> halted s" and fetch: "fetch_instr_at_pc s (pc s) = Some w"
    by auto
  have nth: "word32 (regs s ! nat (k AND 0x1F))" for k
    using rg len mask5_nat [of k] by (simp add: regs32_nth)
  note facts = rg mm nth regs32_update mem32_update mem32_get word32_consts word32_mask
    word32_and word32_or
  consider (R) "drop_bit 26 w AND 0x3F = 0" | (J) "drop_bit 26 w AND 0x3F = 2"
    | (I) "drop_bit 26 w AND 0x3F \<noteq> 0" "drop_bit 26 w AND 0x3F \<noteq> 2"
    by blast
  then show ?thesis
  proof cases
    case R
    from step_R_word [OF len run fetch R] st show ?thesis
      by (auto simp: facts)
  next
    case J
    from step_J_word [OF len run fetch J] st
    have "regs s1 = (regs s)[0 := 0]" "mem s1 = mem s" by auto
    then show ?thesis by (simp add: facts)
  next
    case I
    from step_I_word [OF len run fetch I] st show ?thesis
      by (auto simp: facts)
  qed
qed


lemma reachable_word32: "reachable s \<Longrightarrow> regs32 (regs s) \<and> mem32 (mem s)"
proof (induction rule: reachable.induct)
  case (reachable_init instr_words base_pc)
  show ?case by (simp add: SimpleMIPS_def regs32_def mem32_def word32_def)
next
  case (reachable_step s r s1)
  then show ?case using step_word32 reachable_len by blast
qed


lemma step_add_wrap:
  assumes len: "length (regs s) = 32" and run: "\<not> halted s"
    and fetch: "fetch_instr_at_pc s (pc s) = Some w"
    and dec: "decode w = Inr dec" "d_type dec = ''R''" "d_mnemonic dec = ''add''"
      "d_rs dec = Some i" "d_rt dec = Some j" "d_rd dec = Some k"
    and vals: "regs s ! nat i = 0xFFFFFFFF" "regs s ! nat j = 1"
    and st: "step s = Inr (r, s1)"
  shows "regs s1 ! nat k = 0"
proof -
  note op = decode_is_R [OF dec(1,2)]
  from decode_R [OF op] dec
  have m: "dict_get R_FUNCTS (w AND 0x3F) (''unknown_r(0x'' @ fmt_02x (w AND 0x3F) @ '')'')
       = ''add''"
    and i: "i = drop_bit 21 w AND 0x1F" and j: "j = drop_bit 16 w AND 0x1F"
    and k: "k = drop_bit 11 w AND 0x1F"
    by auto
  have kl: "nat k < length (regs s)"
    unfolding k using len mask5_nat by simp
  from step_R_word [OF len run fetch op] st
  have "regs s1 = (regs s)[nat k := (regs s ! nat i + regs s ! nat j) AND 0xFFFFFFFF, 0 := 0]"
    unfolding m i [symmetric] j [symmetric] k [symmetric] by auto
  then have "regs s1 = (regs s)[nat k := 0, 0 := 0]"
    by (simp add: vals)
  then show ?thesis
    using kl by (cases "nat k = 0") (simp_all add: nth_list_update)
qed

lemma and32_mod: "(a::int) AND 0xFFFFFFFF = a mod 2 ^ 32"
proof -
  have "a AND mask 32 = take_bit 32 a" by (simp add: take_bit_eq_mask)
  then show ?thesis by (simp add: take_bit_eq_mod mask_eq_exp_minus_1)
qed

lemma word32_mod: "word32 a \<Longrightarrow> a mod 2 ^ 32 = a"
  by (simp add: word32_def)

lemma step_R_exact:
  assumes len: "length (regs s) = 32" and rg: "regs32 (regs s)" and run: "\<not> halted s"
    and fetch: "fetch_instr_at_pc s (pc s) = Some w"
    and dec: "decode w = Inr dec" "d_type dec = ''R''"
      "d_rs dec = Some i" "d_rt dec = Some j" "d_rd dec = Some k"
    and st: "step s = Inr (r, s1)"
  shows "mem s1 = mem s \<and>
     regs s1 =
       (let x = regs s ! nat i; y = regs s ! nat j; m = d_mnemonic dec in
        if m = ''add'' then (regs s)[nat k := (x + y) mod 2 ^ 32]
        else if m = ''sub'' then (regs s)[nat k := (x - y) mod 2 ^ 32]
        else if m = ''and'' then (regs s)[nat k := x AND y]
        else if m = ''or'' then (regs s)[nat k := x OR y]
        else if m = ''slt'' then (regs s)[nat k := (if x < y then 1 else 0)]
        else regs s)[0 := 0]"
proof -
  note op = decode_is_R [OF dec(1,2)]
  from decode_R [OF op] dec
  have m: "dict_get R_FUNCTS (w AND 0x3F) (''unknown_r(0x'' @ fmt_02x (w AND 0x3F) @ '')'')
       = d_mnemonic dec"
    and i: "i = drop_bit 21 w AND 0x1F" and j: "j = drop_bit 16 w AND 0x1F"
    and k: "k = drop_bit 11 w AND 0x1F"
    by auto
  have x: "regs s ! nat i mod 2 ^ 32 = regs s ! nat i"
    unfolding i using rg len mask5_nat [of "drop_bit 21 w"]
    by (intro word32_mod regs32_nth) simp_all
  have y: "regs s ! nat j mod 2 ^ 32 = regs s ! nat j"
    unfolding j using rg len mask5_nat [of "drop_bit 16 w"]
    by (intro word32_mod regs32_nth) simp_all
  from step_R_word [OF len run fetch op] st
  have "mem s1 = mem s \<and>
     regs s1 =
       (let x = regs s ! nat i; y = regs s ! nat j; m = d_mnemonic dec in
        if m = ''add'' then (regs s)[nat k := (x + y) AND 0xFFFFFFFF]
        else if m = ''sub'' then (regs s)[nat k := (x - y) AND 0xFFFFFFFF]
        else if m = ''and'' then (regs s)[nat k := x AND y]
        else if m = ''or'' then (regs s)[nat k := x OR y]
        else if m = ''slt'' then
          (regs s)[nat k := (if (x AND 0xFFFFFFFF) < (y AND 0xFFFFFFFF) then 1 else 0)]
        else regs s)[0 := 0]"
    unfolding m i [symmetric] j [symmetric] k [symmetric] Let_def by auto
  then show ?thesis
    unfolding Let_def and32_mod x y .
qed

lemma step_I_exact:
  assumes len: "length (regs s) = 32" and run: "\<not> halted s"
    and fetch: "fetch_instr_at_pc s (pc s) = Some w"
    and dec: "decode w = Inr dec" "d_type dec = ''I''"
      "d_rs dec = Some i" "d_rt dec = Some j" "d_imm dec = Some c"
    and st: "step s = Inr (r, s1)"
  shows "regs s1 =
       (let x = regs s ! nat i; m = d_mnemonic dec in
        if m = ''addi'' then (regs s)[nat j := (x + c) mod 2 ^ 32]
        else if m = ''lw'' then (regs s)[nat j := dict_get (mem s) (x + c) 0]
        else regs s)[0 := 0] \<and>
     mem s1 =
       (if d_mnemonic dec = ''sw''
        then (mem s)(regs s ! nat i + c \<mapsto> regs s ! nat j mod 2 ^ 32)
        else mem s)"
proof -
  note op = decode_is_I [OF dec(1,2)]
  from decode_I [of w] op dec
  have m: "dict_get I_OPCODES (drop_bit 26 w AND 0x3F)
       (''unknown_i(0x'' @ fmt_02x (drop_bit 26 w AND 0x3F) @ '')'') = d_mnemonic dec"
    and i: "i = drop_bit 21 w AND 0x1F" and j: "j = drop_bit 16 w AND 0x1F"
    and c: "c = (if (w AND 0xFFFF) AND 0x8000 \<noteq> 0 then (w AND 0xFFFF) - 0x10000
                 else w AND 0xFFFF)"
    by auto
  from step_I_word [OF len run fetch] op st
  have "regs s1 =
       (let x = regs s ! nat i; m = d_mnemonic dec in
        if m = ''addi'' then (regs s)[nat j := (x + c) AND 0xFFFFFFFF]
        else if m = ''lw'' then (regs s)[nat j := dict_get (mem s) (x + c) 0]
        else regs s)[0 := 0] \<and>
     mem s1 =
       (if d_mnemonic dec = ''sw''
        then (mem s)(regs s ! nat i + c \<mapsto> regs s ! nat j AND 0xFFFFFFFF)
        else mem s)"
    unfolding m i [symmetric] j [symmetric] c [symmetric] Let_def by auto
  then show ?thesis
    unfolding Let_def and32_mod .
qed


text \<open>
  C5: from every reachable machine \<open>step\<close> returns and leaves 32 registers, each of them and
  each value stored in memory in the range from 0 to \<open>2^32 - 1\<close>. What it leaves is computed
  modulo \<open>2^32\<close>: for the register format the destination register gets the sum or the
  difference of the two source registers modulo \<open>2^32\<close>, their bitwise \<open>AND\<close> or \<open>OR\<close>, or
  the unsigned comparison, and memory is unchanged; for the immediate format \<open>addi\<close> writes
  the sum with the sign-extended immediate modulo \<open>2^32\<close>, \<open>lw\<close> the stored value (0 if
  absent), and \<open>sw\<close> stores the target register modulo \<open>2^32\<close>; register 0 is then set to 0
  and no other register changes. In particular a register-format \<open>add\<close> whose source
  registers hold 0xFFFFFFFF and 1 leaves 0 in its destination register.
\<close>

theorem values_in_32_bits:
  assumes "reachable s"
  shows "\<exists>r s1. step s = Inr (r, s1) \<and> length (regs s1) = 32 \<and>
     (\<forall>n<32. 0 \<le> regs s1 ! n \<and> regs s1 ! n < 2 ^ 32) \<and>
     (\<forall>a v. mem s1 a = Some v \<longrightarrow> 0 \<le> v \<and> v < 2 ^ 32) \<and>
     (\<forall>w dec i j k. \<not> halted s \<and> fetch_instr_at_pc s (pc s) = Some w \<and>
        decode w = Inr dec \<and> d_type dec = ''R'' \<and>
        d_rs dec = Some i \<and> d_rt dec = Some j \<and> d_rd dec = Some k \<longrightarrow>
        mem s1 = mem s \<and>
        regs s1 =
          (let x = regs s ! nat i; y = regs s ! nat j; m = d_mnemonic dec in
           if m = ''add'' then (regs s)[nat k := (x + y) mod 2 ^ 32]
           else if m = ''sub'' then (regs s)[nat k := (x - y) mod 2 ^ 32]
           else if m = ''and'' then (regs s)[nat k := x AND y]
           else if m = ''or'' then (regs s)[nat k := x OR y]
           else if m = ''slt'' then (regs s)[nat k := (if x < y then 1 else 0)]
           else regs s)[0 := 0]) \<and>
     (\<forall>w dec i j c. \<not> halted s \<and> fetch_instr_at_pc s (pc s) = Some w \<and>
        decode w = Inr dec \<and> d_type dec = ''I'' \<and>
        d_rs dec = Some i \<and> d_rt dec = Some j \<and> d_imm dec = Some c \<longrightarrow>
        regs s1 =
          (let x = regs s ! nat i; m = d_mnemonic dec in
           if m = ''addi'' then (regs s)[nat j := (x + c) mod 2 ^ 32]
           else if m = ''lw'' then (regs s)[nat j := dict_get (mem s) (x + c) 0]
           else regs s)[0 := 0] \<and>
        mem s1 =
          (if d_mnemonic dec = ''sw''
           then (mem s)(regs s ! nat i + c \<mapsto> regs s ! nat j mod 2 ^ 32)
           else mem s)) \<and>
     (\<forall>w dec i j k. \<not> halted s \<and> fetch_instr_at_pc s (pc s) = Some w \<and>
        decode w = Inr dec \<and> d_type dec = ''R'' \<and> d_mnemonic dec = ''add'' \<and>
        d_rs dec = Some i \<and> d_rt dec = Some j \<and> d_rd dec = Some k \<and>
        regs s ! nat i = 0xFFFFFFFF \<and> regs s ! nat j = 1 \<longrightarrow>
        regs s1 ! nat k = 0x00000000)"
proof -
  note len = reachable_len [OF assms]
  note inv0 = reachable_word32 [OF assms]
  from step_total [OF len] obtain r s1 where st: "step s = Inr (r, s1)"
    and len1: "length (regs s1) = 32"
    by blast
  from step_word32 [OF len _ _ st] inv0
  have inv: "regs32 (regs s1)" "mem32 (mem s1)" by auto
  have a: "\<forall>n<32. 0 \<le> regs s1 ! n \<and> regs s1 ! n < 2 ^ 32"
    using regs32_nth [OF inv(1)] len1 by (simp add: word32_def)
  have b: "\<forall>a v. mem s1 a = Some v \<longrightarrow> 0 \<le> v \<and> v < 2 ^ 32"
    using inv(2) by (simp add: mem32_def word32_def)
  have c: "(\<forall>w dec i j k. \<not> halted s \<and> fetch_instr_at_pc s (pc s) = Some w \<and>
        decode w = Inr dec \<and> d_type dec = ''R'' \<and>
        d_rs dec = Some i \<and> d_rt dec = Some j \<and> d_rd dec = Some k \<longrightarrow>
        mem s1 = mem s \<and>
        regs s1 =
          (let x = regs s ! nat i; y = regs s ! nat j; m = d_mnemonic dec in
           if m = ''add'' then (regs s)[nat k := (x + y) mod 2 ^ 32]
           else if m = ''sub'' then (regs s)[nat k := (x - y) mod 2 ^ 32]
           else if m = ''and'' then (regs s)[nat k := x AND y]
           else if m = ''or'' then (regs s)[nat k := x OR y]
           else if m = ''slt'' then (regs s)[nat k := (if x < y then 1 else 0)]
           else regs s)[0 := 0])"
    using step_R_exact [OF len conjunct1 [OF inv0] _ _ _ _ _ _ _ st] by blast
  have d: "(\<forall>w dec i j c. \<not> halted s \<and> fetch_instr_at_pc s (pc s) = Some w \<and>
        decode w = Inr dec \<and> d_type dec = ''I'' \<and>
        d_rs dec = Some i \<and> d_rt dec = Some j \<and> d_imm dec = Some c \<longrightarrow>
        regs s1 =
          (let x = regs s ! nat i; m = d_mnemonic dec in
           if m = ''addi'' then (regs s)[nat j := (x + c) mod 2 ^ 32]
           else if m = ''lw'' then (regs s)[nat j := dict_get (mem s) (x + c) 0]
           else regs s)[0 := 0] \<and>
        mem s1 =
          (if d_mnemonic dec = ''sw''
           then (mem s)(regs s ! nat i + c \<mapsto> regs s ! nat j mod 2 ^ 32)
           else mem s))"
    using step_I_exact [OF len _ _ _ _ _ _ _ st] by blast
  have e: "(\<forall>w dec i j k. \<not> halted s \<and> fetch_instr_at_pc s (pc s) = Some w \<and>
        decode w = Inr dec \<and> d_type dec = ''R'' \<and> d_mnemonic dec = ''add'' \<and>
        d_rs dec = Some i \<and> d_rt dec = Some j \<and> d_rd dec = Some k \<and>
        regs s ! nat i = 0xFFFFFFFF \<and> regs s ! nat j = 1 \<longrightarrow>
        regs s1 ! nat k = 0x00000000)"
    using step_add_wrap [OF len _ _ _ _ _ _ _ _ _ _ st] by blast
  from st len1 a b c d e show ?thesis by blast
qed

text \<open>
  The witness is the three-word program \<open>addi $1, $0, -1\<close>, \<open>addi $2, $0, 1\<close>,
  \<open>add $3, $1, $2\<close>: the machine at its start, and the machine reached by the first
  two instructions.
\<close>

theorem values_in_32_bits_witness:
  "reachable (SimpleMIPS [0x2001FFFF, 0x20020001, 0x00221820] 0x00400000) \<and>
   decode 0x2001FFFF = Inr \<lparr>d_type = ''I'', d_opcode = 8, d_mnemonic = ''addi'',
      d_rs = Some 0, d_rt = Some 1, d_rd = None, d_shamt = None, d_funct = None,
      d_imm = Some (- 1), d_address = None\<rparr> \<and>
   (\<exists>r s1. step (SimpleMIPS [0x2001FFFF, 0x20020001, 0x00221820] 0x00400000) = Inr (r, s1) \<and>
      regs s1 = (replicate 32 0)[1 := 0xFFFFFFFF] \<and> mem s1 = Map.empty) \<and>
   reachable \<lparr>regs = (replicate 32 0)[1 := 0xFFFFFFFF, 2 := 1], mem = Map.empty,
      pc = 0x00400008, base = 0x00400000, instrs = [0x2001FFFF, 0x20020001, 0x00221820],
      step_count = 2, halted = False\<rparr> \<and>
   decode 0x00221820 = Inr \<lparr>d_type = ''R'', d_opcode = 0, d_mnemonic = ''add'',
      d_rs = Some 1, d_rt = Some 2, d_rd = Some 3, d_shamt = Some 0,
      d_funct = Some 0x20, d_imm = None, d_address = None\<rparr> \<and>
   (\<exists>r s1. step \<lparr>regs = (replicate 32 0)[1 := 0xFFFFFFFF, 2 := 1], mem = Map.empty,
        pc = 0x00400008, base = 0x00400000, instrs = [0x2001FFFF, 0x20020001, 0x00221820],
        step_count = 2, halted = False\<rparr> = Inr (r, s1) \<and>
      length (regs s1) = 32 \<and> 0 \<le> regs s1 ! 1 \<and> regs s1 ! 1 < 2 ^ 32 \<and>
      regs s1 = (replicate 32 0)[1 := 0xFFFFFFFF, 2 := 1, 3 := 0] \<and> mem s1 = Map.empty \<and>
      regs s1 ! 3 = 0)"
proof -
  let ?ws = "[0x2001FFFF, 0x20020001, 0x00221820] :: int list"
  let ?s0 = "SimpleMIPS ?ws 0x00400000"
  let ?s1 = "\<lparr>regs = (replicate 32 0)[1 := 0xFFFFFFFF], mem = Map.empty,
      pc = 0x00400004, base = 0x00400000, instrs = ?ws, step_count = 1, halted = False\<rparr>"
  let ?s2 = "\<lparr>regs = (replicate 32 0)[1 := 0xFFFFFFFF, 2 := 1], mem = Map.empty,
      pc = 0x00400008, base = 0x00400000, instrs = ?ws, step_count = 2, halted = False\<rparr>"
  have z0: "(replicate 32 (0::int))[0 := 0] = replicate 32 0"
    by (simp add: list_eq_iff_nth_eq nth_list_update)
  have z: "(xs[Suc 0 := x])[0 := 0] = (xs[0 := 0])[Suc 0 := x]"
      "(xs[2 := x])[0 := 0] = (xs[0 := 0])[2 := x]"
      "(xs[3 := x])[0 := 0] = (xs[0 := 0])[3 := x]"
    for xs :: "int list" and x
    by (simp_all add: list_update_swap)
  have d1: "decode 0x2001FFFF = Inr \<lparr>d_type = ''I'', d_opcode = 8, d_mnemonic = ''addi'',
      d_rs = Some 0, d_rt = Some 1, d_rd = None, d_shamt = None, d_funct = None,
      d_imm = Some (- 1), d_address = None\<rparr>"
    by (simp add: decode_I I_OPCODES_def dict_get_def)
  have d2: "decode 0x20020001 = Inr \<lparr>d_type = ''I'', d_opcode = 8, d_mnemonic = ''addi'',
      d_rs = Some 0, d_rt = Some 2, d_rd = None, d_shamt = None, d_funct = None,
      d_imm = Some 1, d_address = None\<rparr>"
    by (simp add: decode_I I_OPCODES_def dict_get_def)
  have d3: "decode 0x00221820 = Inr \<lparr>d_type = ''R'', d_opcode = 0, d_mnemonic = ''add'',
      d_rs = Some 1, d_rt = Some 2, d_rd = Some 3, d_shamt = Some 0,
      d_funct = Some 0x20, d_imm = None, d_address = None\<rparr>"
    by (simp add: decode_R R_FUNCTS_def dict_get_def)
  have st0: "\<exists>r. step ?s0 = Inr (r, ?s1)"
    by (simp add: step_def SimpleMIPS_def fetch_instr_at_pc_def d1 bind_exn_Inr exec_I_def
        field_def get_reg_def set_reg_def py_getitem_def py_setitem_def py_index_def
        no_keys_def Let_def z z0)
  have st1: "\<exists>r. step ?s1 = Inr (r, ?s2)"
    by (simp add: step_def fetch_instr_at_pc_def d2 bind_exn_Inr exec_I_def
        field_def get_reg_def set_reg_def py_getitem_def py_setitem_def py_index_def
        no_keys_def Let_def z z0)
  have r0: "reachable ?s0" by (rule reachable_init)
  from st0 r0 have r1: "reachable ?s1" by (blast intro: reachable_step)
  from st1 r1 have r2: "reachable ?s2" by (blast intro: reachable_step)
  have f0: "\<not> halted ?s0" "fetch_instr_at_pc ?s0 (pc ?s0) = Some 0x2001FFFF"
    "regs ?s0 = replicate 32 0" "mem ?s0 = Map.empty"
    by (simp_all add: SimpleMIPS_def fetch_instr_at_pc_def)
  have f: "\<not> halted ?s2" "fetch_instr_at_pc ?s2 (pc ?s2) = Some 0x00221820"
    "regs ?s2 ! nat 1 = 0xFFFFFFFF" "regs ?s2 ! nat 2 = 1"
    by (simp_all add: fetch_instr_at_pc_def)
  from values_in_32_bits [OF r0] obtain r s1 where st: "step ?s0 = Inr (r, s1)"
    and i: "\<And>w dec i j c. \<not> halted ?s0 \<and> fetch_instr_at_pc ?s0 (pc ?s0) = Some w \<and>
        decode w = Inr dec \<and> d_type dec = ''I'' \<and>
        d_rs dec = Some i \<and> d_rt dec = Some j \<and> d_imm dec = Some c \<Longrightarrow>
        regs s1 =
          (let x = regs ?s0 ! nat i; m = d_mnemonic dec in
           if m = ''addi'' then (regs ?s0)[nat j := (x + c) mod 2 ^ 32]
           else if m = ''lw'' then (regs ?s0)[nat j := dict_get (mem ?s0) (x + c) 0]
           else regs ?s0)[0 := 0] \<and>
        mem s1 =
          (if d_mnemonic dec = ''sw''
           then (mem ?s0)(regs ?s0 ! nat i + c \<mapsto> regs ?s0 ! nat j mod 2 ^ 32)
           else mem ?s0)"
    by blast
  have "regs s1 = (replicate 32 0)[1 := 0xFFFFFFFF] \<and> mem s1 = Map.empty"
    using i [of "0x2001FFFF" _ 0 1 "- 1"] f0(1,2) d1 by (simp add: f0(3,4) z z0)
  with st have first: "\<exists>r s1. step ?s0 = Inr (r, s1) \<and>
      regs s1 = (replicate 32 0)[1 := 0xFFFFFFFF] \<and> mem s1 = Map.empty"
    by blast
  from values_in_32_bits [OF r2] obtain r s1 where st: "step ?s2 = Inr (r, s1)"
    and len: "length (regs s1) = 32"
    and a: "\<forall>n<32. 0 \<le> regs s1 ! n \<and> regs s1 ! n < 2 ^ 32"
    and g: "\<And>w dec i j k. \<not> halted ?s2 \<and> fetch_instr_at_pc ?s2 (pc ?s2) = Some w \<and>
        decode w = Inr dec \<and> d_type dec = ''R'' \<and>
        d_rs dec = Some i \<and> d_rt dec = Some j \<and> d_rd dec = Some k \<Longrightarrow>
        mem s1 = mem ?s2 \<and>
        regs s1 =
          (let x = regs ?s2 ! nat i; y = regs ?s2 ! nat j; m = d_mnemonic dec in
           if m = ''add'' then (regs ?s2)[nat k := (x + y) mod 2 ^ 32]
           else if m = ''sub'' then (regs ?s2)[nat k := (x - y) mod 2 ^ 32]
           else if m = ''and'' then (regs ?s2)[nat k := x AND y]
           else if m = ''or'' then (regs ?s2)[nat k := x OR y]
           else if m = ''slt'' then (regs ?s2)[nat k := (if x < y then 1 else 0)]
           else regs ?s2)[0 := 0]"
    and c: "\<And>w dec i j k. \<not> halted ?s2 \<and> fetch_instr_at_pc ?s2 (pc ?s2) = Some w \<and>
        decode w = Inr dec \<and> d_type dec = ''R'' \<and> d_mnemonic dec = ''add'' \<and>
        d_rs dec = Some i \<and> d_rt dec = Some j \<and> d_rd dec = Some k \<and>
        regs ?s2 ! nat i = 0xFFFFFFFF \<and> regs ?s2 ! nat j = 1 \<Longrightarrow>
        regs s1 ! nat k = 0x00000000"
    by blast
  have "regs s1 ! nat 3 = 0"
    using c [of "0x00221820" _ 1 2 3] f d3 by simp
  then have three: "regs s1 ! 3 = 0" by simp
  have exact: "mem s1 = Map.empty \<and>
      regs s1 = (replicate 32 0)[1 := 0xFFFFFFFF, 2 := 1, 3 := 0]"
    using g [of "0x00221820" _ 1 2 3] f(1,2) d3 by (simp add: z z0)
  from a have "0 \<le> regs s1 ! 1 \<and> regs s1 ! 1 < 2 ^ 32" by simp
  with three exact st len have second: "\<exists>r s1. step ?s2 = Inr (r, s1) \<and>
      length (regs s1) = 32 \<and> 0 \<le> regs s1 ! 1 \<and> regs s1 ! 1 < 2 ^ 32 \<and>
      regs s1 = (replicate 32 0)[1 := 0xFFFFFFFF, 2 := 1, 3 := 0] \<and> mem s1 = Map.empty \<and>
      regs s1 ! 3 = 0"
    by blast
  from r0 d1 first r2 d3 second show ?thesis by blast
qed

section \<open>The bounded run\<close>

lemma run_loop_halted: "halted s \<Longrightarrow> run_loop n s acc = Inr (acc, s)"
  by (cases n) simp_all

lemma run_loop_spec:
  assumes "length (regs s) = 32"
  shows "\<exists>rs s1. run_loop n s acc = Inr (acc @ rs, s1) \<and> length rs \<le> n \<and>
     step_seq s rs s1 \<and> (length rs < n \<longrightarrow> halted s1)"
  using assms
proof (induction n arbitrary: s acc)
  case 0
  then show ?case by simp
next
  case (Suc n)
  show ?case
  proof (cases "halted s")
    case True
    then show ?thesis by simp
  next
    case False
    from step_total [OF Suc.prems] obtain r s0 where st: "step s = Inr (r, s0)"
      and len: "length (regs s0) = 32"
      by blast
    from Suc.IH [OF len, of "acc @ [r]"] obtain rs s1 where
      run: "run_loop n s0 (acc @ [r]) = Inr ((acc @ [r]) @ rs, s1)"
      and props: "length rs \<le> n" "step_seq s0 rs s1" "length rs < n \<longrightarrow> halted s1"
      by blast
    have "run_loop (Suc n) s acc = Inr (acc @ (r # rs), s1)"
      using False st run by (simp add: bind_exn_Inr)
    moreover have "step_seq s (r # rs) s1"
      using False st props(2) by simp
    ultimately show ?thesis
      using props(1,3) by (intro exI [of _ "r # rs"] exI [of _ s1]) simp
  qed
qed

text \<open>
  C7: from a reachable machine \<open>run_n\<close> returns at most \<open>n\<close> results. They are, in order,
  the results of the calls of \<open>step\<close> it made, each made with the halted flag clear; it
  made fewer than \<open>n\<close> calls only if it left the machine halted; and when the first call
  sets the halted flag, the result of that call is returned and no other call is made.
\<close>

theorem run_n_results:
  assumes "reachable s"
  shows "\<exists>rs s1. run_n s n = Inr (rs, s1) \<and> length rs \<le> nat n \<and> step_seq s rs s1 \<and>
     (length rs < nat n \<longrightarrow> halted s1) \<and>
     (\<forall>r s2. 0 < n \<and> \<not> halted s \<and> step s = Inr (r, s2) \<and> halted s2 \<longrightarrow>
        rs = [r] \<and> s1 = s2)"
proof -
  from run_loop_spec [OF reachable_len [OF assms], of "nat n" "[]"]
  obtain rs s1 where run: "run_n s n = Inr (rs, s1)" and le: "length rs \<le> nat n"
    and sq: "step_seq s rs s1" and early: "length rs < nat n \<longrightarrow> halted s1"
    by (auto simp: run_n_def)
  have "rs = [r] \<and> s1 = s2"
    if h: "0 < n \<and> \<not> halted s \<and> step s = Inr (r, s2) \<and> halted s2" for r s2
  proof (cases rs)
    case Nil
    with sq early h show ?thesis by auto
  next
    case (Cons r0 rs0)
    with sq h have "r0 = r" and tl: "step_seq s2 rs0 s1" by auto
    from tl h have "rs0 = [] \<and> s1 = s2" by (cases rs0) auto
    with Cons \<open>r0 = r\<close> show ?thesis by simp
  qed
  with run le sq early show ?thesis by blast
qed

text \<open>The witness runs an empty program: the only call of \<open>step\<close> sets the halted flag.\<close>

theorem run_n_results_witness:
  "reachable (SimpleMIPS [] DEFAULT_BASE_PC) \<and> (0::int) < 5 \<and>
   \<not> halted (SimpleMIPS [] DEFAULT_BASE_PC) \<and>
   step (SimpleMIPS [] DEFAULT_BASE_PC) =
     Inr (no_keys\<lparr>status := Some ''pc_out_of_range'', r_pc := Some DEFAULT_BASE_PC\<rparr>,
          (SimpleMIPS [] DEFAULT_BASE_PC)\<lparr>halted := True\<rparr>) \<and>
   run_n (SimpleMIPS [] DEFAULT_BASE_PC) 5 =
     Inr ([no_keys\<lparr>status := Some ''pc_out_of_range'', r_pc := Some DEFAULT_BASE_PC\<rparr>],
          (SimpleMIPS [] DEFAULT_BASE_PC)\<lparr>halted := True\<rparr>)"
proof -
  let ?s = "SimpleMIPS [] DEFAULT_BASE_PC"
  let ?r = "no_keys\<lparr>status := Some ''pc_out_of_range'', r_pc := Some DEFAULT_BASE_PC\<rparr>"
  have a: "reachable ?s" by (rule reachable_init)
  have b: "\<not> halted ?s" by (simp add: SimpleMIPS_def)
  have c: "step ?s = Inr (?r, ?s\<lparr>halted := True\<rparr>)"
    by (simp add: step_def SimpleMIPS_def fetch_instr_at_pc_def)
  from run_n_results [OF a, of 5] b c
  have "run_n ?s 5 = Inr ([?r], ?s\<lparr>halted := True\<rparr>)"
    by auto
  with a b c show ?thesis by simp
qed

section \<open>Falling off the end of the program\<close>

lemma step_straight:
  assumes len: "length (regs s) = 32" and run: "\<not> halted s"
    and fetch: "fetch_instr_at_pc s (pc s) = Some w"
    and op: "drop_bit 26 w AND 0x3F \<notin> {2, 4, 5}"
  shows "\<exists>r s1. step s = Inr (r, s1) \<and> status r = Some ''ok'' \<and> pc s1 = pc s + 4 \<and>
     length (regs s1) = 32 \<and> \<not> halted s1 \<and> base s1 = base s \<and> instrs s1 = instrs s"
proof (cases "drop_bit 26 w AND 0x3F = 0")
  case True
  from step_R_word [OF len run fetch True] show ?thesis
    using len run by auto
next
  case False
  from op have two: "drop_bit 26 w AND 0x3F \<noteq> 2" by simp
  from op have m: "dict_get I_OPCODES (drop_bit 26 w AND 0x3F) x \<noteq> ''beq''"
      "dict_get I_OPCODES (drop_bit 26 w AND 0x3F) x \<noteq> ''bne''" if "x \<noteq> ''beq''" "x \<noteq> ''bne''" for x
    using that by (auto simp: dict_get_def I_OPCODES_def)
  from step_I_word [OF len run fetch False two] show ?thesis
    using len run by (auto simp: m)
qed

lemma fetch_index:
  assumes "pc s = base s + 4 * int k"
  shows "fetch_instr_at_pc s (pc s) =
     (if k < length (instrs s) then Some (instrs s ! k) else None)"
  using assms by (simp add: fetch_instr_at_pc_def)

lemma run_loop_straight:
  assumes "length (regs s) = 32" and "\<not> halted s" and "pc s = base s + 4 * int k"
    and "k + d = length (instrs s)"
    and "\<forall>w\<in>set (instrs s). drop_bit 26 w AND 0x3F \<notin> {2, 4, 5}"
    and "d < n"
  shows "\<exists>rs s1. run_loop n s acc = Inr (acc @ rs, s1) \<and>
     map status rs = replicate d (Some ''ok'') @ [Some ''pc_out_of_range'']"
  using assms
proof (induction d arbitrary: s k n acc)
  case 0
  from "0.prems"(6) obtain n0 where n: "n = Suc n0" by (cases n) auto
  have "fetch_instr_at_pc s (pc s) = None"
    using fetch_index [OF "0.prems"(3)] "0.prems"(4) by simp
  with step_stop [of s] "0.prems"(2) obtain r where
    st: "step s = Inr (r, s\<lparr>halted := True\<rparr>)" "status r = Some ''pc_out_of_range''"
    by auto
  have "run_loop n s acc = Inr (acc @ [r], s\<lparr>halted := True\<rparr>)"
    using "0.prems"(2) st(1) by (simp add: n bind_exn_Inr run_loop_halted)
  with st(2) show ?case by simp
next
  case (Suc d)
  then obtain n0 where n: "n = Suc n0" and n0: "d < n0" by (cases n) auto
  from Suc.prems have k: "k < length (instrs s)" by simp
  then have fetch: "fetch_instr_at_pc s (pc s) = Some (instrs s ! k)"
    using fetch_index [OF Suc.prems(3)] by simp
  from k Suc.prems(5) have op: "drop_bit 26 (instrs s ! k) AND 0x3F \<notin> {2, 4, 5}"
    using nth_mem by blast
  from step_straight [OF Suc.prems(1,2) fetch op] obtain r s0 where
    st: "step s = Inr (r, s0)" "status r = Some ''ok''" "pc s0 = pc s + 4"
      "length (regs s0) = 32" "\<not> halted s0" "base s0 = base s" "instrs s0 = instrs s"
    by blast
  have pc0: "pc s0 = base s0 + 4 * int (Suc k)"
    using st(3,6) Suc.prems(3) by simp
  have kd: "Suc k + d = length (instrs s0)"
    using Suc.prems(4) st(7) by simp
  have all: "\<forall>w\<in>set (instrs s0). drop_bit 26 w AND 0x3F \<notin> {2, 4, 5}"
    using Suc.prems(5) st(7) by simp
  from Suc.IH [OF st(4,5) pc0 kd all n0, of "acc @ [r]"] obtain rs s1 where
    run: "run_loop n0 s0 (acc @ [r]) = Inr ((acc @ [r]) @ rs, s1)"
    and sts: "map status rs = replicate d (Some ''ok'') @ [Some ''pc_out_of_range'']"
    by blast
  have "run_loop n s acc = Inr (acc @ (r # rs), s1)"
    using Suc.prems(2) st(1) run by (simp add: n bind_exn_Inr)
  moreover have "map status (r # rs) =
      replicate (Suc d) (Some ''ok'') @ [Some ''pc_out_of_range'']"
    using st(2) sts by simp
  ultimately show ?case by blast
qed

text \<open>
  C3, as amended: when no word of the list is a jump or a branch (no opcode 2, 4 or 5),
  building the machine from the \<open>L\<close> words at any base and calling \<open>run_n\<close> with \<open>L + 5\<close>
  returns exactly \<open>L\<close> results of status \<open>ok\<close> and then one of status
  \<open>pc_out_of_range\<close>. (The claim said so of every list of words.)
\<close>

theorem run_straight_line:
  assumes "\<forall>w\<in>set ws. drop_bit 26 w AND 0x3F \<notin> {2, 4, 5}"
  shows "\<exists>rs s1. run_n (SimpleMIPS ws b) (int (length ws) + 5) = Inr (rs, s1) \<and>
     map status rs = replicate (length ws) (Some ''ok'') @ [Some ''pc_out_of_range'']"
proof -
  let ?s = "SimpleMIPS ws b"
  have "\<exists>rs s1. run_loop (length ws + 5) ?s [] = Inr ([] @ rs, s1) \<and>
     map status rs = replicate (length ws) (Some ''ok'') @ [Some ''pc_out_of_range'']"
    using assms by (intro run_loop_straight [where k = 0]) (simp_all add: SimpleMIPS_def)
  moreover have "nat (int (length ws) + 5) = length ws + 5" by simp
  ultimately show ?thesis by (simp add: run_n_def)
qed

theorem run_straight_line_witness:
  "drop_bit 26 0x2001FFFF AND 0x3F = (8::int) \<and> drop_bit 26 0x00221820 AND 0x3F = (0::int) \<and>
   (\<exists>rs s1. run_n (SimpleMIPS [0x2001FFFF, 0x00221820] DEFAULT_BASE_PC) 7 = Inr (rs, s1) \<and>
      map status rs = [Some ''ok'', Some ''ok'', Some ''pc_out_of_range''])"
proof -
  have a: "\<forall>w\<in>set [0x2001FFFF, 0x00221820]. drop_bit 26 w AND 0x3F \<notin> {2, 4, 5 :: int}"
    by simp
  from run_straight_line [OF a, of DEFAULT_BASE_PC] show ?thesis
    by (simp add: eval_nat_numeral)
qed

text \<open>
  The claim on the single word \<open>j 0x100000\<close> loaded at 0x00400000, which jumps to itself:
  \<open>run_n\<close> with \<open>1 + 5\<close> returns six results of status \<open>ok\<close> and none of status
  \<open>pc_out_of_range\<close>.
\<close>

theorem run_jump_loop_counterexample:
  "map_sum id (map status \<circ> fst) (run_n (SimpleMIPS [0x08100000] 0x00400000) (1 + 5)) =
     Inr [Some ''ok'', Some ''ok'', Some ''ok'', Some ''ok'', Some ''ok'', Some ''ok'']"
  by (simp add: run_n_def eval_nat_numeral step_def SimpleMIPS_def fetch_instr_at_pc_def
      decode_J exec_J_def field_def bind_exn_Inr set_reg_def py_setitem_def py_index_def
      no_keys_def Let_def)

section \<open>The word parser\<close>























lemma parse_word_ascii:
  assumes "list_all (\<lambda>c. c < 128) s"
  shows "parse_word dec s = parse_word dec' s"
proof -
  have "x \<in> set s" if "x \<in> set (strip s)" for x
    using that unfolding strip_def by (metis set_dropWhileD set_rev)
  with assms have "list_all (\<lambda>c. c < 128) (strip s)"
    by (auto simp: list_all_iff)
  then have "py_int dec (strip s) b = py_int dec' (strip s) b" for b
    by (simp add: py_int_def to_ascii_def)
  then show ?thesis by (simp add: parse_word_def Let_def)
qed




lemma fullwidth_example:
  "parse_word fullwidth_digits [0x3000, 0xFF11, 0xFF10] = Inr (Some 16) \<and>
   parse_word fullwidth_digits [0x1F, 0x31, 0x30] = Inr (Some 16) \<and>
   py_int fullwidth_digits [0x1F, 0x31, 0x30] 16 = Inl ValueError"
  by (simp add: parse_word_def strip_def is_space_def c_isspace_def startswith_def py_int_def
      digit_val_def lit_def to_ascii_def fullwidth_digits_def)

end
